theory Spec2Isabelle
  imports Complex_Main "HOL-Library.Sublist"
begin

section \<open>Python values and exceptions\<close>

text \<open>
  The exceptions that the modelled code can raise. Every one of them is a subclass of
  Python's \<^verbatim>\<open>Exception\<close>, so an \<^verbatim>\<open>except Exception\<close> clause catches each.
\<close>

datatype exn = ValueError | TypeError | AssertionError | AttributeError | IndexError
  | UnpicklingError | RuntimeError string

type_synonym doc_id = string

text \<open>
  An embedding vector. The source converts every vector to \<^verbatim>\<open>float32\<close>; the model keeps
  exact rational entries and does not model rounding.
\<close>

type_synonym vec = "rat list"

text \<open>
  \<^verbatim>\<open>add_document\<close> documents its argument \<^verbatim>\<open>text_chunks\<close> as a list of strings, and
  \<^verbatim>\<open>upload_file\<close> passes it a single string. Both support \<^verbatim>\<open>len\<close>, indexing and
  \<^verbatim>\<open>' '.join\<close>.
\<close>

datatype pychunks = ChunkList "string list" | ChunkStr string

fun len_chunks :: "pychunks \<Rightarrow> nat" where
  "len_chunks (ChunkList cs) = length cs"
| "len_chunks (ChunkStr s) = length s"

fun chunk_at :: "pychunks \<Rightarrow> nat \<Rightarrow> string" where
  "chunk_at (ChunkList cs) i = cs ! i"
| "chunk_at (ChunkStr s) i = [s ! i]"

fun join_with :: "string \<Rightarrow> string list \<Rightarrow> string" where
  "join_with sep [] = []"
| "join_with sep [x] = x"
| "join_with sep (x # y # ys) = x @ sep @ join_with sep (y # ys)"

fun join_chunks :: "pychunks \<Rightarrow> string" where
  "join_chunks (ChunkList cs) = join_with '' '' cs"
| "join_chunks (ChunkStr s) = join_with '' '' (map (\<lambda>c. [c]) s)"

text \<open>
  The argument \<^verbatim>\<open>embeddings\<close>: a list of vectors as documented, or the dictionary
  \<^verbatim>\<open>{'chunks': ..., 'embeddings': ...}\<close> that \<^verbatim>\<open>generate_embeddings\<close> returns.
\<close>

datatype pyembeddings = EmbRows "vec list" | EmbDict "string list" "vec list"

fun len_embeddings :: "pyembeddings \<Rightarrow> nat" where
  "len_embeddings (EmbRows rows) = length rows"
| "len_embeddings (EmbDict cs es) = 2"

text \<open>
  \<^verbatim>\<open>np.array(embeddings).astype('float32')\<close>: a dictionary becomes a 0-dimensional object
  array whose conversion raises \<^verbatim>\<open>TypeError\<close>; rows of different lengths raise
  \<^verbatim>\<open>ValueError\<close>.
\<close>

fun np_array_float32 :: "pyembeddings \<Rightarrow> exn + vec list" where
  "np_array_float32 (EmbDict cs es) = Inl TypeError"
| "np_array_float32 (EmbRows rows) =
     (if \<exists>r \<in> set rows. length r \<noteq> length (hd rows) then Inl ValueError else Inr rows)"

section \<open>The FAISS index\<close>

text \<open>
  \<^verbatim>\<open>faiss.IndexFlatL2(d)\<close> keeps the added vectors in insertion order; \<^verbatim>\<open>ntotal\<close> is
  their number.
\<close>

record faiss_index =
  idx_d :: nat
  xb :: "vec list"

definition IndexFlatL2 :: "nat \<Rightarrow> faiss_index" where
  "IndexFlatL2 n = \<lparr>idx_d = n, xb = []\<rparr>"

definition ntotal :: "faiss_index \<Rightarrow> nat" where
  "ntotal ix = length (xb ix)"

text \<open>
  \<^verbatim>\<open>index.add(x)\<close> unpacks \<^verbatim>\<open>n, d = x.shape\<close> (a \<^verbatim>\<open>ValueError\<close> for the
  1-dimensional array that an empty list gives) and asserts \<^verbatim>\<open>d == self.d\<close>.
\<close>

definition index_add :: "faiss_index \<Rightarrow> vec list \<Rightarrow> exn + faiss_index" where
  "index_add ix rows =
     (if rows = [] then Inl ValueError
      else if length (hd rows) \<noteq> idx_d ix then Inl AssertionError
      else Inr (ix\<lparr>xb := xb ix @ rows\<rparr>))"

definition l2sq :: "vec \<Rightarrow> vec \<Rightarrow> rat" where
  "l2sq q x = sum_list (map (\<lambda>(a, b). (a - b) * (a - b)) (zip q x))"

text \<open>
  \<^verbatim>\<open>index.search(x, k)\<close> for a single query row: asserts the dimension and \<^verbatim>\<open>k > 0\<close>,
  and returns the \<open>k\<close> stored vectors nearest to the query as pairs of squared distance and
  position, by ascending distance. The model breaks ties by position. The only caller asks
  for at most \<open>ntotal\<close> hits, so the padding of FAISS with position \<open>-1\<close> never arises.
\<close>

definition index_search :: "faiss_index \<Rightarrow> vec \<Rightarrow> int \<Rightarrow> exn + (rat \<times> int) list" where
  "index_search ix q k =
     (if length q \<noteq> idx_d ix then Inl AssertionError
      else if k \<le> 0 then Inl AssertionError
      else Inr (take (nat k)
             (sort_key fst (zip (map (l2sq q) (xb ix)) (map int [0..<length (xb ix)])))))"

section \<open>The vector store\<close>

record doc_info =
  chunks :: pychunks
  chunk_start_idx :: nat
  filename :: string
  upload_time :: "rat option"
  full_text :: string

record vector_store =
  dimension :: nat
  index :: faiss_index
  documents :: "doc_id \<rightharpoonup> doc_info"
  doc_ids :: "doc_id list"

text \<open>The field initialisers of \<^verbatim>\<open>VectorStore.__init__\<close>, before it calls \<^verbatim>\<open>load\<close>.\<close>

definition fresh_store :: "nat \<Rightarrow> vector_store" where
  "fresh_store n = \<lparr>dimension = n, index = IndexFlatL2 n, documents = Map.empty, doc_ids = []\<rparr>"

subsection \<open>The store file and the log\<close>

text \<open>
  The content of the file at \<^verbatim>\<open>store_path\<close>, as \<^verbatim>\<open>pickle.load\<close> sees it: a pickled
  dictionary that may hold the keys \<^verbatim>\<open>documents\<close>, \<^verbatim>\<open>doc_ids\<close> and \<^verbatim>\<open>index\<close>, a
  pickled object of another type, or bytes on which \<^verbatim>\<open>pickle.load\<close> raises (a truncated
  or damaged stream). The value under \<^verbatim>\<open>index\<close> is the byte array of
  \<^verbatim>\<open>faiss.serialize_index\<close>, or bytes that \<^verbatim>\<open>faiss.deserialize_index\<close> rejects.
\<close>

datatype index_blob = Blob faiss_index | BadBlob

datatype pickled =
  PickledDict "(doc_id \<rightharpoonup> doc_info) option" "doc_id list option" "index_blob option"
  | PickledOther

datatype file_content = Pickle pickled | Unreadable

datatype log_event =
  LogSaved nat | LogSaveFailed | LogLoaded nat | LogLoadFailed exn | LogNoStore
  | LogNotFound doc_id | LogRemoved doc_id | LogAdded doc_id nat

record env =
  disk :: "file_content option"
  logged :: "log_event list"

definition log_event :: "log_event \<Rightarrow> env \<Rightarrow> env" where
  "log_event ev e = e\<lparr>logged := logged e @ [ev]\<rparr>"

text \<open>
  What the file system does while \<^verbatim>\<open>save\<close> runs: the write completes, \<^verbatim>\<open>open\<close> raises
  (the file is left as it was), or an error interrupts \<^verbatim>\<open>pickle.dump\<close> after
  \<^verbatim>\<open>open(path, 'wb')\<close> has truncated the file.
\<close>

datatype io_outcome = WriteOk | OpenFails | DumpFails

definition save :: "io_outcome \<Rightarrow> vector_store \<Rightarrow> env \<Rightarrow> env" where
  "save io st e =
     (case io of
        WriteOk \<Rightarrow>
          log_event (LogSaved (length (doc_ids st)))
            (e\<lparr>disk := Some (Pickle (PickledDict (Some (documents st)) (Some (doc_ids st))
                                 (Some (Blob (index st)))))\<rparr>)
      | OpenFails \<Rightarrow> log_event LogSaveFailed e
      | DumpFails \<Rightarrow> log_event LogSaveFailed (e\<lparr>disk := Some Unreadable\<rparr>))"

text \<open>
  The body of the \<^verbatim>\<open>try\<close> block of \<^verbatim>\<open>load\<close>. On an exception it returns the exception
  with the store as mutated so far.
\<close>

definition load_try :: "file_content \<Rightarrow> vector_store \<Rightarrow> (exn \<times> vector_store) + vector_store" where
  "load_try f st =
     (case f of
        Unreadable \<Rightarrow> Inl (UnpicklingError, st)
      | Pickle PickledOther \<Rightarrow> Inl (AttributeError, st)
      | Pickle (PickledDict docs ids blob) \<Rightarrow>
          (let st1 = st\<lparr>documents := (case docs of None \<Rightarrow> Map.empty | Some m \<Rightarrow> m)\<rparr>;
               st2 = st1\<lparr>doc_ids := (case ids of None \<Rightarrow> [] | Some l \<Rightarrow> l)\<rparr>
           in case blob of
                None \<Rightarrow> Inr st2
              | Some BadBlob \<Rightarrow> Inl (RuntimeError ''deserialize_index'', st2)
              | Some (Blob ix) \<Rightarrow> Inr (st2\<lparr>index := ix\<rparr>)))"

text \<open>
  \<^verbatim>\<open>load\<close> returns \<open>Inr\<close> of the new store and environment, or \<open>Inl\<close> of an exception
  that leaves the function.
\<close>

definition load :: "vector_store \<Rightarrow> env \<Rightarrow> exn + (vector_store \<times> env)" where
  "load st e =
     (case disk e of
        Some f \<Rightarrow>
          (case load_try f st of
             Inr st' \<Rightarrow> Inr (st', log_event (LogLoaded (length (doc_ids st'))) e)
           | Inl (ex, st') \<Rightarrow>
               Inr (st'\<lparr>documents := Map.empty, doc_ids := []\<rparr>, log_event (LogLoadFailed ex) e))
      | None \<Rightarrow> Inr (st, log_event LogNoStore e))"

subsection \<open>Search\<close>

record search_result =
  res_doc_id :: doc_id
  res_chunk :: string
  res_score :: rat

text \<open>The body of the loop of \<^verbatim>\<open>search\<close> over the raw hits.\<close>

fun search_loop :: "vector_store \<Rightarrow> (rat \<times> int) list \<Rightarrow> search_result list" where
  "search_loop st [] = []"
| "search_loop st ((distance, i) # hits) =
     (if i < 0 \<or> i \<ge> int (length (doc_ids st)) then search_loop st hits
      else
        (let did = doc_ids st ! nat i in
         case documents st did of
           None \<Rightarrow> search_loop st hits
         | Some info \<Rightarrow>
             (let relative_idx = i - int (chunk_start_idx info) in
              if relative_idx < 0 \<or> relative_idx \<ge> int (len_chunks (chunks info))
              then search_loop st hits
              else \<lparr>res_doc_id = did, res_chunk = chunk_at (chunks info) (nat relative_idx),
                     res_score = distance\<rparr> # search_loop st hits)))"

definition search :: "vector_store \<Rightarrow> vec \<Rightarrow> int \<Rightarrow> rat option \<Rightarrow> exn + search_result list" where
  "search st query_embedding top_k threshold =
     (if ntotal (index st) = 0 then Inr []
      else
        (case index_search (index st) query_embedding (min top_k (int (ntotal (index st)))) of
           Inl ex \<Rightarrow> Inl ex
         | Inr hits \<Rightarrow>
             (let results = search_loop st hits in
              case threshold of
                None \<Rightarrow> Inr results
              | Some t \<Rightarrow> Inr (filter (\<lambda>r. res_score r \<le> t) results))))"

subsection \<open>Adding and removing documents\<close>

record metadata =
  md_filename :: "string option"
  md_upload_time :: "rat option"

definition has_document :: "vector_store \<Rightarrow> doc_id \<Rightarrow> bool" where
  "has_document st did = (did \<in> dom (documents st))"

text \<open>
  \<^verbatim>\<open>add_document\<close> returns the identifier, or the exception that leaves it, together with
  the store and the environment as they are at that moment: the document record is written
  before the embeddings are converted and added.
\<close>

definition add_document ::
  "io_outcome \<Rightarrow> doc_id \<Rightarrow> pychunks \<Rightarrow> pyembeddings \<Rightarrow> metadata option \<Rightarrow> vector_store \<Rightarrow> env
     \<Rightarrow> (exn + doc_id) \<times> vector_store \<times> env" where
  "add_document io document_id text_chunks embeddings md st e =
     (let m = (case md of None \<Rightarrow> \<lparr>md_filename = None, md_upload_time = None\<rparr> | Some m' \<Rightarrow> m');
          st1 = st\<lparr>documents := (documents st)(document_id \<mapsto>
                  \<lparr>chunks = text_chunks,
                   chunk_start_idx = length (doc_ids st),
                   filename = (case md_filename m of None \<Rightarrow> document_id | Some fn \<Rightarrow> fn),
                   upload_time = md_upload_time m,
                   full_text = join_chunks text_chunks\<rparr>)\<rparr>
      in case np_array_float32 embeddings of
           Inl ex \<Rightarrow> (Inl ex, st1, e)
         | Inr embeddings_np \<Rightarrow>
             (case index_add (index st1) embeddings_np of
                Inl ex \<Rightarrow> (Inl ex, st1, e)
              | Inr ix \<Rightarrow>
                  (let st2 = st1\<lparr>index := ix,
                                 doc_ids := doc_ids st1 @ replicate (len_chunks text_chunks) document_id\<rparr>
                   in (Inr document_id, st2,
                       log_event (LogAdded document_id (len_chunks text_chunks)) (save io st2 e)))))"

definition remove_document ::
  "io_outcome \<Rightarrow> doc_id \<Rightarrow> vector_store \<Rightarrow> env \<Rightarrow> bool \<times> vector_store \<times> env" where
  "remove_document io did st e =
     (if did \<notin> dom (documents st) then (False, st, log_event (LogNotFound did) e)
      else
        (let st1 = st\<lparr>documents := (documents st)(did := None)\<rparr>
         in (True, st1, log_event (LogRemoved did) (save io st1 e))))"

subsection \<open>Sequences of calls\<close>

text \<open>
  A call of one of the two mutating methods, with what the file system does to its write.
  A sequence of calls threads the store and the environment; a call that raises leaves
  the store as it was at the raise, and the sequence goes on from there.
\<close>

datatype store_op =
  Add io_outcome doc_id pychunks pyembeddings "metadata option"
  | Remove io_outcome doc_id

fun apply_op :: "store_op \<Rightarrow> vector_store \<times> env \<Rightarrow> vector_store \<times> env" where
  "apply_op (Add io did cs es md) (st, e) = snd (add_document io did cs es md st e)"
| "apply_op (Remove io did) (st, e) = snd (remove_document io did st e)"

fun run_ops :: "store_op list \<Rightarrow> vector_store \<times> env \<Rightarrow> vector_store \<times> env" where
  "run_ops [] s = s"
| "run_ops (x # xs) s = run_ops xs (apply_op x s)"

text \<open>The precondition of \<^verbatim>\<open>add_document\<close>: \<^verbatim>\<open>len(chunks) == len(embeddings)\<close>.\<close>

fun precondition :: "store_op \<Rightarrow> bool" where
  "precondition (Add io did cs es md) = (len_chunks cs = len_embeddings es)"
| "precondition (Remove io did) = True"

definition lookup_matches_index :: "vector_store \<Rightarrow> bool" where
  "lookup_matches_index st = (length (doc_ids st) = ntotal (index st))"

text \<open>
  A position of the index is live when its document is in the document map and the
  position falls inside that document's chunks: the entries that \<^verbatim>\<open>search\<close> keeps.
\<close>

definition live_entry :: "vector_store \<Rightarrow> nat \<Rightarrow> bool" where
  "live_entry st i =
     (i < length (doc_ids st) \<and>
      (case documents st (doc_ids st ! i) of
         None \<Rightarrow> False
       | Some info \<Rightarrow> chunk_start_idx info \<le> i \<and> i - chunk_start_idx info < len_chunks (chunks info)))"

definition live_entries :: "vector_store \<Rightarrow> nat list" where
  "live_entries st = filter (live_entry st) [0..<ntotal (index st)]"

text \<open>
  A raw hit is a pair of distance and position. It is live when its position is; the
  result that belongs to it names the document at that position, the chunk at the
  position's offset in the document, and the distance.
\<close>

definition hit_live :: "vector_store \<Rightarrow> rat \<times> int \<Rightarrow> bool" where
  "hit_live st h = (0 \<le> snd h \<and> live_entry st (nat (snd h)))"

definition hit_result :: "vector_store \<Rightarrow> rat \<times> int \<Rightarrow> search_result" where
  "hit_result st h =
     \<lparr>res_doc_id = doc_ids st ! nat (snd h),
      res_chunk = (case documents st (doc_ids st ! nat (snd h)) of
                     None \<Rightarrow> []
                   | Some info \<Rightarrow> chunk_at (chunks info) (nat (snd h) - chunk_start_idx info)),
      res_score = fst h\<rparr>"

text \<open>
  What it means for a list of hits to be nearest neighbours of the query in the index: by
  ascending distance, on different positions of the index, each with the squared distance
  of its vector, and no vector outside the list is nearer than one inside.
\<close>

definition nearest_hits :: "faiss_index \<Rightarrow> vec \<Rightarrow> (rat \<times> int) list \<Rightarrow> bool" where
  "nearest_hits ix q hits =
     (sorted (map fst hits) \<and> distinct (map snd hits)
      \<and> (\<forall>h \<in> set hits. 0 \<le> snd h \<and> nat (snd h) < ntotal ix
                           \<and> fst h = l2sq q (xb ix ! nat (snd h)))
      \<and> (\<forall>j < ntotal ix. int j \<notin> snd ` set hits \<longrightarrow>
             (\<forall>h \<in> set hits. fst h \<le> l2sq q (xb ix ! j))))"

text \<open>All stored vectors by ascending distance to the query, as the index ranks them.\<close>

definition ranked_hits :: "faiss_index \<Rightarrow> vec \<Rightarrow> (rat \<times> int) list" where
  "ranked_hits ix q = sort_key fst (zip (map (l2sq q) (xb ix)) (map int [0..<length (xb ix)]))"

text \<open>The file that a completed \<^verbatim>\<open>save\<close> of a store leaves.\<close>

definition complete_file :: "vector_store \<Rightarrow> file_content" where
  "complete_file st =
     Pickle (PickledDict (Some (documents st)) (Some (doc_ids st)) (Some (Blob (index st))))"

subsection \<open>A small store\<close>

text \<open>
  Document \<open>A\<close> with the chunks \<open>cats\<close> and \<open>dogs\<close> at \<open>[1, 0]\<close> and \<open>[0, 1]\<close>,
  then document \<open>B\<close> with the chunk \<open>birds\<close> at \<open>[5, 5]\<close>, then the removal of \<open>A\<close>.
\<close>

definition example_ops :: "store_op list" where
  "example_ops =
     [Add WriteOk ''A'' (ChunkList [''cats'', ''dogs'']) (EmbRows [[1, 0], [0, 1]]) None,
      Add WriteOk ''B'' (ChunkList [''birds'']) (EmbRows [[5, 5]]) None,
      Remove WriteOk ''A'']"

definition example_env :: env where
  "example_env = \<lparr>disk = None, logged = []\<rparr>"

definition store_A :: vector_store where
  "store_A = fst (run_ops (take 1 example_ops) (fresh_store 2, example_env))"

definition store_AB :: vector_store where
  "store_AB = fst (run_ops (take 2 example_ops) (fresh_store 2, example_env))"

definition example_store :: vector_store where
  "example_store = fst (run_ops example_ops (fresh_store 2, example_env))"

section \<open>The chunker\<close>

text \<open>
  Python strings are sequences of code points; the model's characters are the code
  points below 256. \<^verbatim>\<open>str.strip()\<close> and the pattern \<^verbatim>\<open>\s\<close> use the same whitespace
  test, which on these code points holds for 9 to 13, 28 to 32, 133 and 160.
\<close>

definition is_space :: "char \<Rightarrow> bool" where
  "is_space c =
     (let n = (of_char c :: nat)
      in (9 \<le> n \<and> n \<le> 13) \<or> (28 \<le> n \<and> n \<le> 32) \<or> n = 133 \<or> n = 160)"

definition strip :: "string \<Rightarrow> string" where
  "strip s = rev (dropWhile is_space (rev (dropWhile is_space s)))"

text \<open>
  \<^verbatim>\<open>text.split('\n\n')\<close>: the pieces between the occurrences of two line feeds, found
  from left to right. The first argument collects the current piece in reverse.
\<close>

fun split_blank_lines :: "string \<Rightarrow> string \<Rightarrow> string list" where
  "split_blank_lines cur [] = [rev cur]"
| "split_blank_lines cur [c] = [rev (c # cur)]"
| "split_blank_lines cur (c1 # c2 # rest) =
     (if c1 = CHR 0x0A \<and> c2 = CHR 0x0A then rev cur # split_blank_lines [] rest
      else split_blank_lines (c1 # cur) (c2 # rest))"

text \<open>
  \<^verbatim>\<open>re.split(r'(?<=[.!?])\s+', paragraph)\<close>: a separator is a maximal run of whitespace
  whose first character directly follows a full stop, an exclamation mark or a question
  mark. The flag says that such a run is being skipped; the second argument collects
  the current sentence in reverse.
\<close>

definition sentence_end :: "char \<Rightarrow> bool" where
  "sentence_end c = (c = CHR ''.'' \<or> c = CHR ''!'' \<or> c = CHR ''?'')"

fun split_sentences_from :: "bool \<Rightarrow> string \<Rightarrow> string \<Rightarrow> string list" where
  "split_sentences_from skipping cur [] = [rev cur]"
| "split_sentences_from skipping cur (c # cs) =
     (if skipping then
        (if is_space c then split_sentences_from True cur cs
         else split_sentences_from False (c # cur) cs)
      else if is_space c \<and> cur \<noteq> [] \<and> sentence_end (hd cur)
           then rev cur # split_sentences_from True [] cs
      else split_sentences_from False (c # cur) cs)"

definition split_sentences :: "string \<Rightarrow> string list" where
  "split_sentences paragraph = split_sentences_from False [] paragraph"

fun ensure_text_is_string :: "pychunks \<Rightarrow> string" where
  "ensure_text_is_string (ChunkList xs) = join_with '' '' xs"
| "ensure_text_is_string (ChunkStr s) = s"

text \<open>
  The inner loop of \<^verbatim>\<open>split_into_chunks\<close> over the sentences of an oversized paragraph.
  The state is \<^verbatim>\<open>chunks\<close> (written \<open>acc\<close> here, since \<open>chunks\<close> names a field of the
  document record), \<^verbatim>\<open>sentence_chunk\<close> and \<^verbatim>\<open>sentence_chunk_length\<close>.
\<close>

fun sentence_loop ::
  "int \<Rightarrow> string list \<Rightarrow> string list \<times> string list \<times> int \<Rightarrow> string list \<times> string list \<times> int" where
  "sentence_loop chunk_size [] s = s"
| "sentence_loop chunk_size (sentence # rest) (acc, sentence_chunk, sentence_chunk_length) =
     (if sentence_chunk_length + int (length sentence) > chunk_size \<and> sentence_chunk \<noteq> [] then
        (let last_sentences =
               (if length sentence_chunk \<ge> 2 then drop (length sentence_chunk - 2) sentence_chunk
                else sentence_chunk)
         in sentence_loop chunk_size rest
              (acc @ [join_with '' '' sentence_chunk],
               last_sentences @ [sentence],
               sum_list (map (\<lambda>s. int (length s)) last_sentences) + int (length last_sentences) - 1
                 + int (length sentence) + 1))
      else sentence_loop chunk_size rest
             (acc, sentence_chunk @ [sentence], sentence_chunk_length + int (length sentence) + 1))"

text \<open>
  The outer loop over the paragraphs. The state is \<^verbatim>\<open>chunks\<close> (again \<open>acc\<close>),
  \<^verbatim>\<open>current_chunk\<close> and \<^verbatim>\<open>current_length\<close>.
\<close>

fun paragraph_loop ::
  "int \<Rightarrow> string list \<Rightarrow> string list \<times> string list \<times> int \<Rightarrow> string list \<times> string list \<times> int" where
  "paragraph_loop chunk_size [] s = s"
| "paragraph_loop chunk_size (paragraph # rest) (acc, current_chunk, current_length) =
     (if current_length + int (length paragraph) > chunk_size then
        (let chunks1 = (if current_chunk \<noteq> []
                        then acc @ [join_with [CHR 0x0A, CHR 0x0A] current_chunk] else acc)
         in if int (length paragraph) > chunk_size then
              (case sentence_loop chunk_size (split_sentences paragraph) (chunks1, [], 0) of
                 (chunks2, sentence_chunk, sentence_chunk_length) \<Rightarrow>
                   paragraph_loop chunk_size rest
                     (if sentence_chunk \<noteq> [] then chunks2 @ [join_with '' '' sentence_chunk]
                      else chunks2, [], 0))
            else if current_chunk \<noteq> [] \<and> length current_chunk > 1 then
              paragraph_loop chunk_size rest
                (chunks1, [last current_chunk, paragraph],
                 int (length (last current_chunk)) + int (length paragraph))
            else paragraph_loop chunk_size rest (chunks1, [paragraph], int (length paragraph)))
      else paragraph_loop chunk_size rest
             (acc, current_chunk @ [paragraph], current_length + int (length paragraph) + 2))"

text \<open>The parameter \<^verbatim>\<open>overlap\<close> is not used by the source.\<close>

definition split_into_chunks :: "pychunks \<Rightarrow> int \<Rightarrow> int \<Rightarrow> string list" where
  "split_into_chunks text chunk_size overlap =
     (let t = ensure_text_is_string text
      in if t = [] then []
         else
           (let paragraphs = filter (\<lambda>p. p \<noteq> []) (map strip (split_blank_lines [] t))
            in case paragraph_loop chunk_size paragraphs ([], [], 0) of
                 (acc, current_chunk, current_length) \<Rightarrow>
                   (if current_chunk \<noteq> []
                    then acc @ [join_with [CHR 0x0A, CHR 0x0A] current_chunk] else acc)))"

text \<open>
  A sentence boundary in a paragraph is a whitespace character directly after a full stop,
  an exclamation mark or a question mark; a blank line is two line feeds in a row. The
  paragraphs of a text are the list that \<^verbatim>\<open>split_into_chunks\<close> computes first.
\<close>

fun has_sentence_boundary :: "string \<Rightarrow> bool" where
  "has_sentence_boundary (a # b # rest) =
     ((sentence_end a \<and> is_space b) \<or> has_sentence_boundary (b # rest))"
| "has_sentence_boundary _ = False"

fun has_blank_line :: "string \<Rightarrow> bool" where
  "has_blank_line (a # b # rest) =
     ((a = CHR 0x0A \<and> b = CHR 0x0A) \<or> has_blank_line (b # rest))"
| "has_blank_line _ = False"

definition paragraphs_of :: "string \<Rightarrow> string list" where
  "paragraphs_of t = filter (\<lambda>p. p \<noteq> []) (map strip (split_blank_lines [] t))"

text \<open>The sum of the lengths of the strings of a list, each counted with a separator.\<close>

definition weight :: "nat \<Rightarrow> string list \<Rightarrow> nat" where
  "weight d xs = sum_list (map (\<lambda>x. length x + d) xs)"

section \<open>Uploading a file\<close>

text \<open>
  What the upload route takes from outside the repository: the MD5 digest of
  \<^verbatim>\<open>hashlib\<close>, \<^verbatim>\<open>secure_filename\<close> of werkzeug, what opening and reading a path as a
  PDF gives, the sentence-transformer model's \<^verbatim>\<open>encode\<close>, and the clock.
\<close>

datatype pdf_outcome =
  Unexpected string
  | Encrypted
  | PdfReadError string
  | Pages "string list"

record services =
  md5_hexdigest :: "string \<Rightarrow> string"
  secure_filename :: "string \<Rightarrow> string"
  pdf_at :: "string \<Rightarrow> pdf_outcome"
  encode :: "string list \<Rightarrow> exn + vec list"
  time_now :: rat

text \<open>
  \<^verbatim>\<open>extract_text_from_pdf(file_path)\<close> opens the path and reads it with PyPDF2. It
  returns a string on every path: the text of the pages, or a message. An exception of
  \<^verbatim>\<open>open\<close> (no such file, a path with a null byte) ends in the outer handler.
\<close>

definition extract_text_from_pdf :: "services \<Rightarrow> string \<Rightarrow> string" where
  "extract_text_from_pdf sv file_path =
     (case pdf_at sv file_path of
        Unexpected details \<Rightarrow>
          ''ERROR: An unexpected error occurred while processing the PDF. Details: '' @ details
      | Encrypted \<Rightarrow>
          ''ERROR: This PDF is encrypted or password-protected and cannot be processed.''
      | PdfReadError details \<Rightarrow>
          ''ERROR: Failed to read PDF file. The file may be corrupted or invalid. Details: ''
            @ details
      | Pages pages \<Rightarrow>
          (let t = concat (map (\<lambda>p. p @ [CHR 0x0A]) pages)
           in if strip t = []
              then ''WARNING: No text could be extracted from this PDF. It may be scanned or contain only images.''
              else t))"

text \<open>
  \<^verbatim>\<open>generate_embeddings(text)\<close> splits the text with the default chunk size and overlap,
  encodes the chunks and returns the dictionary of both. Its cache on disk, which gives
  back the dictionary of an earlier call on the same text, is left out.
\<close>

definition generate_embeddings :: "services \<Rightarrow> string \<Rightarrow> exn + pyembeddings" where
  "generate_embeddings sv t =
     (let cs = split_into_chunks (ChunkStr t) 1000 200
      in case encode sv cs of
           Inl ex \<Rightarrow> Inl ex
         | Inr embeddings \<Rightarrow> Inr (EmbDict cs embeddings))"

text \<open>\<^verbatim>\<open>str.lower()\<close> on the code points below 256.\<close>

definition lower_char :: "char \<Rightarrow> char" where
  "lower_char c =
     (let n = (of_char c :: nat)
      in if (65 \<le> n \<and> n \<le> 90) \<or> (192 \<le> n \<and> n \<le> 222 \<and> n \<noteq> 215)
         then char_of (n + 32) else c)"

definition allowed_file :: "string \<Rightarrow> bool" where
  "allowed_file fname =
     (CHR ''.'' \<in> set fname
      \<and> map lower_char (rev (takeWhile (\<lambda>c. c \<noteq> CHR ''.'') (rev fname))) = ''pdf'')"

definition get_file_hash :: "services \<Rightarrow> string \<Rightarrow> string" where
  "get_file_hash sv file_bytes = md5_hexdigest sv file_bytes"

record uploaded_file =
  upload_name :: string
  upload_bytes :: string

datatype response_body =
  ErrorBody string
  | AlreadyProcessed doc_id string
  | ProcessedOk doc_id string nat

text \<open>
  \<^verbatim>\<open>upload_file\<close>: the request holds a file or not; the result is the JSON body with the
  HTTP status, and the vector store and environment after the call. The source passes the
  bytes of the file to \<^verbatim>\<open>extract_text_from_pdf\<close>, which takes a path, and passes the
  string it returns and the dictionary of \<^verbatim>\<open>generate_embeddings\<close> to \<^verbatim>\<open>add_document\<close>.
  Any exception ends in the handler of the route, with status 500.
\<close>

definition upload_file ::
  "services \<Rightarrow> io_outcome \<Rightarrow> uploaded_file option \<Rightarrow> vector_store \<Rightarrow> env
     \<Rightarrow> (response_body \<times> nat) \<times> vector_store \<times> env" where
  "upload_file sv io request st e =
     (case request of
        None \<Rightarrow> ((ErrorBody ''No file uploaded'', 400), st, e)
      | Some f \<Rightarrow>
          if upload_name f = [] then ((ErrorBody ''No file selected'', 400), st, e)
          else if \<not> allowed_file (upload_name f)
          then ((ErrorBody ''Invalid file type. Only PDF files are allowed.'', 400), st, e)
          else
            (let fname = secure_filename sv (upload_name f);
                 file_hash = get_file_hash sv (upload_bytes f)
             in if has_document st file_hash
                then ((AlreadyProcessed file_hash fname, 200), st, e)
                else
                  (let text_chunks = extract_text_from_pdf sv (upload_bytes f)
                   in if text_chunks = []
                      then ((ErrorBody ''Could not extract text from PDF'', 400), st, e)
                      else
                        (case generate_embeddings sv text_chunks of
                           Inl ex \<Rightarrow> ((ErrorBody ''Failed to process file'', 500), st, e)
                         | Inr embeddings \<Rightarrow>
                             (case add_document io file_hash (ChunkStr text_chunks) embeddings
                                     (Some \<lparr>md_filename = Some fname,
                                            md_upload_time = Some (time_now sv)\<rparr>) st e of
                                (Inl ex, st', e') \<Rightarrow>
                                  ((ErrorBody ''Failed to process file'', 500), st', e')
                              | (Inr did, st', e') \<Rightarrow>
                                  ((ProcessedOk did fname (length text_chunks), 200), st', e'))))))"

section \<open>The retrieval orchestrator\<close>

text \<open>
  The values a generation provider can return: a string, \<^verbatim>\<open>None\<close>, a number, a
  dictionary, a list, or an object of some other class (such as the \<^verbatim>\<open>LLMResult\<close> of a
  LangChain model), named by what \<^verbatim>\<open>str\<close> gives for it.
\<close>

datatype pyval =
  PStr string
  | PNone
  | PNum rat
  | PDict "(string \<times> pyval) list"
  | PList "pyval list"
  | PObj string

fun is_str :: "pyval \<Rightarrow> bool" where
  "is_str (PStr s) = True"
| "is_str _ = False"

text \<open>Python's truth value of an object.\<close>

fun truthy :: "pyval \<Rightarrow> bool" where
  "truthy (PStr s) = (s \<noteq> [])"
| "truthy PNone = False"
| "truthy (PNum x) = (x \<noteq> 0)"
| "truthy (PDict kvs) = (kvs \<noteq> [])"
| "truthy (PList xs) = (xs \<noteq> [])"
| "truthy (PObj r) = True"

text \<open>
  A retrieved document: a result dictionary of \<^verbatim>\<open>VectorStore.search\<close>, or a LangChain
  \<^verbatim>\<open>Document\<close> with its \<^verbatim>\<open>page_content\<close> and the entries \<^verbatim>\<open>source\<close>, \<^verbatim>\<open>page\<close> and
  \<^verbatim>\<open>score\<close> of its \<^verbatim>\<open>metadata\<close>.
\<close>

record doc_metadata =
  meta_source :: "string option"
  meta_page :: "int option"
  meta_score :: "real option"

datatype context_doc =
  ResultDict search_result
  | Document string doc_metadata

text \<open>
  What the orchestrator takes from Python and numpy: \<^verbatim>\<open>str\<close> of a value, of a retrieved
  document, of an integer and of an exception, whether a string reads as a float, and the
  cosine similarity of two arrays (a shape mismatch raises). \<open>format_text\<close> stands for the
  clean-up that \<^verbatim>\<open>_format_response\<close> applies to a non-empty string (stripping, dropping
  echoed prompt lines, list markers, blank lines): it takes a string to a string.
\<close>

record python =
  str_val :: "pyval \<Rightarrow> string"
  str_doc :: "context_doc \<Rightarrow> string"
  str_int :: "int \<Rightarrow> string"
  str_exn :: "exn \<Rightarrow> string"
  is_float_literal :: "string \<Rightarrow> bool"
  cosine_similarity :: "vec \<Rightarrow> vec \<Rightarrow> exn + real"
  format_text :: "string \<Rightarrow> string"

text \<open>
  The collaborators are objects that expose some methods and not others; a method is
  present (\<^verbatim>\<open>hasattr\<close>) or absent, and a call returns or raises.
\<close>

record embedder =
  emb_encode :: "(string \<Rightarrow> exn + vec) option"
  emb_embed_query :: "(string \<Rightarrow> exn + vec) option"
  emb_embed_documents :: "(string list \<Rightarrow> exn + vec list) option"

record llm =
  llm_generate :: "(string list \<Rightarrow> exn + pyval) option"
  llm_predict :: "(string \<Rightarrow> exn + pyval) option"
  llm_call :: "(string \<Rightarrow> exn + pyval) option"

record store_iface =
  vs_search :: "vec \<Rightarrow> int \<Rightarrow> exn + context_doc list"
  vs_similarity_search :: "(string \<Rightarrow> int \<Rightarrow> exn + context_doc list) option"

record rag_system =
  rag_vector_store :: store_iface
  embedding_model :: "embedder option"
  is_sentence_transformer :: bool
  llm_model :: "llm option"

text \<open>
  The repository's own \<^verbatim>\<open>VectorStore\<close> as the orchestrator sees it. The fallback of
  \<^verbatim>\<open>query\<close> calls \<^verbatim>\<open>similarity_search\<close> with the question string in place of a vector:
  the conversion to \<^verbatim>\<open>float32\<close> raises unless the string reads as a float, and then an
  empty index gives no results and a non-empty one raises on the 1-dimensional array.
\<close>

definition search_docs :: "vector_store \<Rightarrow> vec \<Rightarrow> int \<Rightarrow> exn + context_doc list" where
  "search_docs st q k =
     (case search st q k None of Inl ex \<Rightarrow> Inl ex | Inr rs \<Rightarrow> Inr (map ResultDict rs))"

definition similarity_search_question ::
  "python \<Rightarrow> vector_store \<Rightarrow> string \<Rightarrow> int \<Rightarrow> exn + context_doc list" where
  "similarity_search_question py st question k =
     (if \<not> is_float_literal py question then Inl ValueError
      else if ntotal (index st) = 0 then Inr []
      else Inl ValueError)"

definition vector_store_iface :: "python \<Rightarrow> vector_store \<Rightarrow> store_iface" where
  "vector_store_iface py st =
     \<lparr>vs_search = search_docs st,
      vs_similarity_search = Some (similarity_search_question py st)\<rparr>"

subsection \<open>The query embedding\<close>

text \<open>A call of a method that may be absent: the absent one raises \<^verbatim>\<open>AttributeError\<close>.\<close>

definition call_method :: "('a \<Rightarrow> exn + 'b) option \<Rightarrow> 'a \<Rightarrow> exn + 'b" where
  "call_method m x = (case m of None \<Rightarrow> Inl AttributeError | Some f \<Rightarrow> f x)"

text \<open>\<^verbatim>\<open>xs[0]\<close> on the result of a call.\<close>

definition first_of :: "exn + 'a list \<Rightarrow> exn + 'a" where
  "first_of r =
     (case r of Inl ex \<Rightarrow> Inl ex | Inr [] \<Rightarrow> Inl IndexError | Inr (x # xs) \<Rightarrow> Inr x)"

text \<open>The body of the \<^verbatim>\<open>try\<close> block of \<^verbatim>\<open>_get_query_embedding\<close>.\<close>

definition get_query_embedding_try :: "rag_system \<Rightarrow> string \<Rightarrow> exn + vec option" where
  "get_query_embedding_try rag t =
     (case embedding_model rag of
        None \<Rightarrow> Inr None
      | Some em \<Rightarrow>
          if is_sentence_transformer rag then map_sum id Some (call_method (emb_encode em) t)
          else
            (case emb_embed_query em of
               Some f \<Rightarrow> map_sum id Some (f t)
             | None \<Rightarrow>
                 (case emb_embed_documents em of
                    Some g \<Rightarrow> map_sum id Some (first_of (g [t]))
                  | None \<Rightarrow> Inr None)))"

definition get_query_embedding :: "rag_system \<Rightarrow> string \<Rightarrow> vec option" where
  "get_query_embedding rag t =
     (case get_query_embedding_try rag t of Inl ex \<Rightarrow> None | Inr v \<Rightarrow> v)"

subsection \<open>Reranking\<close>

fun doc_has_metadata :: "context_doc \<Rightarrow> bool" where
  "doc_has_metadata (Document pc md) = True"
| "doc_has_metadata (ResultDict r) = False"

fun doc_score :: "context_doc \<Rightarrow> real option" where
  "doc_score (Document pc md) = meta_score md"
| "doc_score (ResultDict r) = None"

fun set_score :: "real \<Rightarrow> context_doc \<Rightarrow> context_doc" where
  "set_score s (Document pc md) = Document pc (md\<lparr>meta_score := Some s\<rparr>)"
| "set_score s (ResultDict r) = ResultDict r"

fun doc_text_of :: "python \<Rightarrow> context_doc \<Rightarrow> string" where
  "doc_text_of py (Document pc md) = pc"
| "doc_text_of py (ResultDict r) = str_doc py (ResultDict r)"

text \<open>\<^verbatim>\<open>sorted(..., reverse=True)\<close> and \<^verbatim>\<open>list.sort(reverse=True)\<close> are stable.\<close>

definition sort_descending :: "('a \<Rightarrow> real) \<Rightarrow> 'a list \<Rightarrow> 'a list" where
  "sort_descending f xs = sort_key (\<lambda>x. - f x) xs"

text \<open>
  The first branch of \<^verbatim>\<open>_rerank_documents\<close>: sorting by the stored scores reads
  \<^verbatim>\<open>x.metadata\<close> of every document, which a result dictionary does not have.
\<close>

definition sort_by_stored_score :: "context_doc list \<Rightarrow> exn + context_doc list" where
  "sort_by_stored_score docs =
     (if \<exists>d \<in> set docs. \<not> doc_has_metadata d then Inl AttributeError
      else Inr (sort_descending (\<lambda>d. case doc_score d of None \<Rightarrow> 0 | Some s \<Rightarrow> s) docs))"

text \<open>
  The loop of \<^verbatim>\<open>_rerank_documents\<close> over the documents, with the list of scored
  documents so far. \<open>None\<close> is the early return of the original documents from inside
  the loop, when the embedding model has no \<^verbatim>\<open>embed_documents\<close>.
\<close>

fun score_loop ::
  "python \<Rightarrow> rag_system \<Rightarrow> embedder \<Rightarrow> vec \<Rightarrow> context_doc list \<Rightarrow> (context_doc \<times> real) list
     \<Rightarrow> (context_doc \<times> real) list option" where
  "score_loop py rag em question_embedding [] scored_docs = Some scored_docs"
| "score_loop py rag em question_embedding (d # ds) scored_docs =
     (if \<not> is_sentence_transformer rag \<and> emb_embed_documents em = None then None
      else
        (case (if is_sentence_transformer rag
               then call_method (emb_encode em) (doc_text_of py d)
               else first_of (call_method (emb_embed_documents em) [doc_text_of py d])) of
           Inl ex \<Rightarrow> score_loop py rag em question_embedding ds (scored_docs @ [(d, 0)])
         | Inr doc_embedding \<Rightarrow>
             (case cosine_similarity py question_embedding doc_embedding of
                Inl ex \<Rightarrow> score_loop py rag em question_embedding ds (scored_docs @ [(d, 0)])
              | Inr similarity \<Rightarrow>
                  score_loop py rag em question_embedding ds
                    (scored_docs @ [(set_score similarity d, similarity)]))))"

text \<open>The body of the \<^verbatim>\<open>try\<close> block of \<^verbatim>\<open>_rerank_documents\<close>.\<close>

definition rerank_documents_try ::
  "python \<Rightarrow> rag_system \<Rightarrow> string \<Rightarrow> context_doc list \<Rightarrow> exn + context_doc list" where
  "rerank_documents_try py rag question docs =
     (if docs \<noteq> [] \<and> doc_has_metadata (hd docs) \<and> doc_score (hd docs) \<noteq> None
      then sort_by_stored_score docs
      else
        (case embedding_model rag of
           None \<Rightarrow> Inr docs
         | Some em \<Rightarrow>
             (case get_query_embedding rag question of
                None \<Rightarrow> Inr docs
              | Some question_embedding \<Rightarrow>
                  (case score_loop py rag em question_embedding docs [] of
                     None \<Rightarrow> Inr docs
                   | Some scored_docs \<Rightarrow> Inr (map fst (sort_descending snd scored_docs))))))"

definition rerank_documents ::
  "python \<Rightarrow> rag_system \<Rightarrow> string \<Rightarrow> context_doc list \<Rightarrow> context_doc list" where
  "rerank_documents py rag question docs =
     (case rerank_documents_try py rag question docs of
        Inl ex \<Rightarrow> docs
      | Inr ds \<Rightarrow> ds)"

subsection \<open>Generating the response\<close>

text \<open>One round of the loop that builds \<^verbatim>\<open>context_text\<close>, for the document numbered \<open>i\<close>.\<close>

fun context_entry :: "python \<Rightarrow> nat \<Rightarrow> context_doc \<Rightarrow> string" where
  "context_entry py i (Document pc md) =
     ''['' @ str_int py (int i + 1) @ '']''
       @ '' (Source: '' @ (case meta_source md of None \<Rightarrow> ''unknown'' | Some s \<Rightarrow> s)
       @ (case meta_page md of
            None \<Rightarrow> '')''
          | Some p \<Rightarrow> '', Page: '' @ str_int py (p + 1) @ '')'')
       @ [CHR 0x0A] @ strip pc @ [CHR 0x0A, CHR 0x0A]"
| "context_entry py i (ResultDict r) =
     ''['' @ str_int py (int i + 1) @ '']''
       @ [CHR 0x0A] @ strip (str_doc py (ResultDict r)) @ [CHR 0x0A, CHR 0x0A]"

definition build_context :: "python \<Rightarrow> context_doc list \<Rightarrow> string" where
  "build_context py ctx =
     concat (map (\<lambda>(i, d). context_entry py i d) (zip [0..<length (take 5 ctx)] (take 5 ctx)))"

definition build_prompt :: "string \<Rightarrow> string \<Rightarrow> string" where
  "build_prompt context_text question =
     concat (map (\<lambda>l. l @ [CHR 0x0A])
       ['''',
        ''You are a knowledgeable AI assistant specializing in providing clear, well-structured answers. '',
        ''Please answer the user's question based on the provided context information.'',
        '''',
        ''INSTRUCTIONS:'',
        ''- Provide a comprehensive, well-organized response'',
        ''- Use bullet points, numbered lists, or sections when appropriate'',
        ''- Include relevant examples or details from the context'',
        ''- If the context doesn't contain enough information, clearly state what you know and what you cannot determine'',
        ''- Format your response to be easy to read and understand'',
        '''',
        ''CONTEXT INFORMATION:'',
        strip context_text,
        '''',
        ''USER QUESTION: '' @ question,
        '''',
        ''RESPONSE:''])"

text \<open>
  The clean-up of the provider's response in \<^verbatim>\<open>_generate_response\<close>: a dictionary and a
  non-empty list are reduced to one of their entries or to their \<^verbatim>\<open>str\<close>; every other
  value is left as it is.
\<close>

definition cleanup_response :: "python \<Rightarrow> pyval \<Rightarrow> pyval" where
  "cleanup_response py response =
     (case response of
        PDict kvs \<Rightarrow>
          (case map_of kvs ''text'' of
             Some v \<Rightarrow> v
           | None \<Rightarrow>
               (case map_of kvs ''generated_text'' of
                  Some v \<Rightarrow> v
                | None \<Rightarrow>
                    (case map_of kvs ''response'' of
                       Some v \<Rightarrow> v
                     | None \<Rightarrow> PStr (str_val py response))))
      | PList (x # xs) \<Rightarrow>
          (case x of
             PDict kvs \<Rightarrow>
               (case map_of kvs ''text'' of
                  Some v \<Rightarrow> v
                | None \<Rightarrow> PStr (str_val py x))
           | _ \<Rightarrow> PStr (str_val py x))
      | _ \<Rightarrow> response)"

text \<open>
  \<^verbatim>\<open>_format_response\<close>: a value that is falsy or is no string is returned unchanged.
\<close>

definition format_response :: "python \<Rightarrow> pyval \<Rightarrow> pyval" where
  "format_response py response_text =
     (if \<not> truthy response_text \<or> \<not> is_str response_text then response_text
      else (case response_text of PStr s \<Rightarrow> PStr (format_text py s) | v \<Rightarrow> v))"

text \<open>
  The inner \<^verbatim>\<open>try\<close> block of \<^verbatim>\<open>_generate_response\<close>: the call of the provider through
  the first of \<^verbatim>\<open>generate\<close>, \<^verbatim>\<open>predict\<close> and \<^verbatim>\<open>__call__\<close> that it has, and the clean-up.
\<close>

definition generate_try :: "python \<Rightarrow> llm \<Rightarrow> string \<Rightarrow> exn + pyval" where
  "generate_try py m prompt =
     (case llm_generate m of
        Some f \<Rightarrow> map_sum id (\<lambda>r. format_response py (cleanup_response py r)) (f [prompt])
      | None \<Rightarrow>
          (case llm_predict m of
             Some f \<Rightarrow> map_sum id (\<lambda>r. format_response py (cleanup_response py r)) (f prompt)
           | None \<Rightarrow>
               (case llm_call m of
                  Some f \<Rightarrow> map_sum id (\<lambda>r. format_response py (cleanup_response py r)) (f prompt)
                | None \<Rightarrow>
                    Inr (PStr ''Error: Language model doesn't support a recognized generation method.''))))"

text \<open>
  \<^verbatim>\<open>_generate_response\<close>. With the typed documents of the model, building the context and
  the prompt cannot raise, so only the handler of the inner block is ever entered.
\<close>

definition generate_response :: "python \<Rightarrow> rag_system \<Rightarrow> string \<Rightarrow> context_doc list \<Rightarrow> pyval" where
  "generate_response py rag question ctx =
     (case llm_model rag of
        None \<Rightarrow> PStr ''No language model available to generate a response.''
      | Some m \<Rightarrow>
          (let context_text = build_context py ctx;
               prompt = build_prompt context_text question
           in case generate_try py m prompt of
                Inr response \<Rightarrow> response
              | Inl ex \<Rightarrow>
                  PStr (''I encountered an error while generating a response: '' @ str_exn py ex)))"

subsection \<open>The query\<close>

text \<open>
  The body of the \<^verbatim>\<open>try\<close> block of \<^verbatim>\<open>query\<close>. The argument \<^verbatim>\<open>context\<close> is \<^verbatim>\<open>None\<close> or a
  list of documents; an empty list counts as no context.
\<close>

definition retrieve :: "rag_system \<Rightarrow> string \<Rightarrow> vec \<Rightarrow> int \<Rightarrow> exn + context_doc list" where
  "retrieve rag question query_embedding k =
     (case vs_search (rag_vector_store rag) query_embedding k of
        Inr ds \<Rightarrow> Inr ds
      | Inl ex \<Rightarrow>
          (case vs_similarity_search (rag_vector_store rag) of
             Some f \<Rightarrow> f question k
           | None \<Rightarrow> Inl ValueError))"

definition retrieve_and_answer ::
  "python \<Rightarrow> rag_system \<Rightarrow> string \<Rightarrow> int \<Rightarrow> bool \<Rightarrow> exn + pyval" where
  "retrieve_and_answer py rag question k rerank =
     (case get_query_embedding rag question of
        None \<Rightarrow>
          Inr (PStr ''Unable to generate embedding for your question. Please check embedding model configuration.'')
      | Some query_embedding \<Rightarrow>
          (case retrieve rag question query_embedding k of
             Inl ex \<Rightarrow> Inl ex
           | Inr relevant_docs \<Rightarrow>
               Inr (generate_response py rag question
                      (if rerank \<and> length relevant_docs > 1
                       then rerank_documents py rag question relevant_docs
                       else relevant_docs))))"

definition query_try ::
  "python \<Rightarrow> rag_system \<Rightarrow> string \<Rightarrow> context_doc list option \<Rightarrow> int \<Rightarrow> bool \<Rightarrow> exn + pyval" where
  "query_try py rag question ctx k rerank =
     (case ctx of
        Some (d # ds) \<Rightarrow> Inr (generate_response py rag question (d # ds))
      | Some [] \<Rightarrow> retrieve_and_answer py rag question k rerank
      | None \<Rightarrow> retrieve_and_answer py rag question k rerank)"

text \<open>
  \<^verbatim>\<open>query\<close> returns \<open>Inr\<close> of the value it hands to its caller, or \<open>Inl\<close> of an exception
  that leaves it.
\<close>

definition query ::
  "python \<Rightarrow> rag_system \<Rightarrow> string \<Rightarrow> context_doc list option \<Rightarrow> int \<Rightarrow> bool \<Rightarrow> exn + pyval" where
  "query py rag question ctx k rerank =
     (case query_try py rag question ctx k rerank of
        Inr response \<Rightarrow> Inr response
      | Inl ex \<Rightarrow> Inr (PStr (''Sorry, I encountered an error: '' @ str_exn py ex)))"

text \<open>
  A deployment on the empty store: a sentence-transformer embedding model, and a provider
  whose \<^verbatim>\<open>generate\<close> returns a result object, as the text-completion models of LangChain
  do.
\<close>

definition example_rag :: "python \<Rightarrow> rag_system" where
  "example_rag py =
     \<lparr>rag_vector_store = vector_store_iface py (fresh_store 2),
      embedding_model = Some \<lparr>emb_encode = Some (\<lambda>t. Inr [1, 0]), emb_embed_query = None,
                               emb_embed_documents = None\<rparr>,
      is_sentence_transformer = True,
      llm_model = Some \<lparr>llm_generate = Some (\<lambda>prompts. Inr (PObj ''LLMResult'')),
                         llm_predict = None, llm_call = None\<rparr>\<rparr>"

section \<open>The small store, evaluated\<close>

lemmas eval_defs = add_document_def remove_document_def fresh_store_def IndexFlatL2_def
  index_add_def search_def ntotal_def index_search_def l2sq_def Let_def save_def log_event_def

lemma store_A_eq:
  "store_A =
     \<lparr>dimension = 2, index = \<lparr>idx_d = 2, xb = [[1, 0], [0, 1]]\<rparr>,
      documents = [''A'' \<mapsto> \<lparr>chunks = ChunkList [''cats'', ''dogs''], chunk_start_idx = 0,
                     filename = ''A'', upload_time = None, full_text = ''cats dogs''\<rparr>],
      doc_ids = [''A'', ''A'']\<rparr>"
  by (simp add: store_A_def example_ops_def example_env_def eval_defs)

lemma store_AB_eq:
  "store_AB =
     \<lparr>dimension = 2, index = \<lparr>idx_d = 2, xb = [[1, 0], [0, 1], [5, 5]]\<rparr>,
      documents = [''A'' \<mapsto> \<lparr>chunks = ChunkList [''cats'', ''dogs''], chunk_start_idx = 0,
                     filename = ''A'', upload_time = None, full_text = ''cats dogs''\<rparr>,
                   ''B'' \<mapsto> \<lparr>chunks = ChunkList [''birds''], chunk_start_idx = 2,
                     filename = ''B'', upload_time = None, full_text = ''birds''\<rparr>],
      doc_ids = [''A'', ''A'', ''B'']\<rparr>"
  by (simp add: store_AB_def example_ops_def example_env_def eval_defs numeral_2_eq_2)

lemma example_store_eq:
  "example_store =
     \<lparr>dimension = 2, index = \<lparr>idx_d = 2, xb = [[1, 0], [0, 1], [5, 5]]\<rparr>,
      documents = [''B'' \<mapsto> \<lparr>chunks = ChunkList [''birds''], chunk_start_idx = 2,
                     filename = ''B'', upload_time = None, full_text = ''birds''\<rparr>],
      doc_ids = [''A'', ''A'', ''B'']\<rparr>"
  by (simp add: example_store_def example_ops_def example_env_def eval_defs numeral_2_eq_2)

lemma add_B_to_store_A:
  "add_document WriteOk ''B'' (ChunkList [''birds'']) (EmbRows [[5, 5]]) None store_A example_env
     = (Inr ''B'', store_AB, log_event (LogAdded ''B'' 1) (save WriteOk store_AB example_env))"
  by (simp add: store_A_eq store_AB_eq add_document_def index_add_def Let_def numeral_2_eq_2)

lemma remove_A_from_store_AB:
  "remove_document WriteOk ''A'' store_AB example_env
     = (True, example_store, log_event (LogRemoved ''A'') (save WriteOk example_store example_env))"
  by (simp add: store_AB_eq example_store_eq remove_document_def Let_def fun_upd_twist)

lemma search_example_store:
  "search example_store [1, 0] 3 None
     = Inr [\<lparr>res_doc_id = ''B'', res_chunk = ''birds'', res_score = 41\<rparr>]"
  by (simp add: example_store_eq search_def ntotal_def index_search_def l2sq_def Let_def)

text \<open>
  The scenario of the specification: with document \<open>A\<close> alone, the nearest chunk to
  \<open>[1, 0]\<close> is \<open>cats\<close>, at distance \<open>0\<close>.
\<close>

lemma search_store_A:
  "search store_A [1, 0] 1 None
     = Inr [\<lparr>res_doc_id = ''A'', res_chunk = ''cats'', res_score = 0\<rparr>]"
  by (simp add: store_A_eq search_def ntotal_def index_search_def l2sq_def Let_def)

section \<open>Facts about the store operations\<close>

lemma disk_log_event [simp]: "disk (log_event ev e) = disk e"
  by (simp add: log_event_def)

lemma disk_save_ok: "disk (save WriteOk st e) = Some (complete_file st)"
  by (simp add: save_def complete_file_def)

lemma load_complete_file:
  assumes "disk e = Some (Pickle (PickledDict (Some m) (Some l) (Some (Blob ix))))"
  shows "load st0 e = Inr (st0\<lparr>documents := m, doc_ids := l, index := ix\<rparr>,
                          log_event (LogLoaded (length l)) e)"
  using assms by (simp add: load_def load_try_def)

lemma search_loop_live_hits:
  "search_loop st hits = map (hit_result st) (filter (hit_live st) hits)"
proof (induction hits)
  case Nil
  show ?case by simp
next
  case (Cons h hits)
  obtain distance i where h: "h = (distance, i)" by (cases h)
  show ?case
  proof (cases "i < 0 \<or> i \<ge> int (length (doc_ids st))")
    case True
    then have "\<not> hit_live st h"
      by (auto simp: hit_live_def live_entry_def h)
    with True Cons.IH h show ?thesis by simp
  next
    case False
    then have i: "0 \<le> i" "nat i < length (doc_ids st)" by auto
    show ?thesis
    proof (cases "documents st (doc_ids st ! nat i)")
      case None
      then have "\<not> hit_live st h"
        by (simp add: hit_live_def live_entry_def h)
      with False None Cons.IH h show ?thesis by simp
    next
      case (Some info)
      show ?thesis
      proof (cases "i - int (chunk_start_idx info) < 0
                    \<or> i - int (chunk_start_idx info) \<ge> int (len_chunks (chunks info))")
        case True
        with i Some have "\<not> hit_live st h"
          by (auto simp: hit_live_def live_entry_def h)
        with False Some True Cons.IH h show ?thesis by (simp add: Let_def)
      next
        case inrange: False
        with i Some have l: "hit_live st h"
          by (auto simp: hit_live_def live_entry_def h)
        from inrange i have "nat (i - int (chunk_start_idx info)) = nat i - chunk_start_idx info"
          by linarith
        with False Some inrange Cons.IH h l show ?thesis
          by (simp add: Let_def hit_result_def)
      qed
    qed
  qed
qed

lemma sorted_take_le_drop:
  assumes "sorted (map f xs)" and "a \<in> set (take m xs)" and "b \<in> set (drop m xs)"
  shows "f a \<le> f b"
proof -
  have "sorted (map f (take m xs) @ map f (drop m xs))"
    using assms(1) by (metis append_take_drop_id map_append)
  with assms(2,3) show ?thesis
    by (auto simp: sorted_append)
qed

lemma nearest_hits_ranked:
  "nearest_hits ix q (take m (ranked_hits ix q))"
proof -
  define n where "n = length (xb ix)"
  define zs where "zs = zip (map (l2sq q) (xb ix)) (map int [0..<n])"
  define ys where "ys = sort_key fst zs"
  have r: "ranked_hits ix q = ys"
    by (simp add: ranked_hits_def ys_def zs_def n_def)
  have zs_snd: "map snd zs = map int [0..<n]"
    by (simp add: zs_def n_def)
  have zs_el: "h \<in> set zs \<longleftrightarrow> (\<exists>j < n. h = (l2sq q (xb ix ! j), int j))" for h
  proof
    assume "h \<in> set zs"
    then show "\<exists>j < n. h = (l2sq q (xb ix ! j), int j)"
      by (auto simp: zs_def n_def set_zip)
  next
    assume "\<exists>j < n. h = (l2sq q (xb ix ! j), int j)"
    then obtain j where j: "j < n" and h: "h = (l2sq q (xb ix ! j), int j)" by blast
    have "h = (map (l2sq q) (xb ix) ! j, map int [0..<n] ! j)"
      using j h by (simp add: n_def)
    moreover have "j < min (length (map (l2sq q) (xb ix))) (length (map int [0..<n]))"
      using j by (simp add: n_def)
    ultimately show "h \<in> set zs"
      unfolding zs_def set_zip by blast
  qed
  have set_ys: "set ys = set zs" by (simp add: ys_def)
  have "distinct (map snd zs)"
    unfolding zs_snd by (simp add: distinct_map inj_on_def)
  then have dz: "distinct zs" and inj: "inj_on snd (set zs)"
    by (simp_all add: distinct_map)
  have "distinct ys" using dz by (simp add: ys_def)
  with inj set_ys have dys: "distinct (map snd ys)"
    by (simp add: distinct_map)
  have sorted_ys: "sorted (map fst ys)" by (simp add: ys_def)
  have s1: "sorted (map fst (take m ys))"
    using sorted_ys by (simp add: take_map [symmetric] sorted_wrt_take)
  have s2: "distinct (map snd (take m ys))"
    using dys by (simp add: take_map [symmetric])
  have s3: "\<forall>h \<in> set (take m ys). 0 \<le> snd h \<and> nat (snd h) < ntotal ix
                           \<and> fst h = l2sq q (xb ix ! nat (snd h))"
  proof
    fix h assume "h \<in> set (take m ys)"
    then have "h \<in> set zs" using set_ys by (auto dest: in_set_takeD)
    then obtain j where "j < n" "h = (l2sq q (xb ix ! j), int j)" using zs_el by blast
    then show "0 \<le> snd h \<and> nat (snd h) < ntotal ix \<and> fst h = l2sq q (xb ix ! nat (snd h))"
      by (simp add: ntotal_def n_def)
  qed
  have s4: "\<forall>j < ntotal ix. int j \<notin> snd ` set (take m ys) \<longrightarrow>
             (\<forall>h \<in> set (take m ys). fst h \<le> l2sq q (xb ix ! j))"
  proof (intro allI impI ballI)
    fix j h
    assume j: "j < ntotal ix" and out: "int j \<notin> snd ` set (take m ys)"
      and h: "h \<in> set (take m ys)"
    let ?b = "(l2sq q (xb ix ! j), int j)"
    from j have "?b \<in> set zs" using zs_el by (auto simp: ntotal_def n_def)
    then have "?b \<in> set (take m ys) \<union> set (drop m ys)"
      using set_ys set_append [of "take m ys" "drop m ys"] by simp
    moreover from out have "?b \<notin> set (take m ys)" by force
    ultimately have "?b \<in> set (drop m ys)" by blast
    from sorted_take_le_drop [OF sorted_ys h this] show "fst h \<le> l2sq q (xb ix ! j)"
      by simp
  qed
  from s1 s2 s3 s4 show ?thesis
    unfolding r nearest_hits_def by blast
qed

lemma search_characterisation:
  assumes "search st q top_k thr = Inr rs"
  shows "\<exists>hits. length hits = nat (min top_k (int (ntotal (index st))))
           \<and> nearest_hits (index st) q hits
           \<and> rs = (case thr of None \<Rightarrow> map (hit_result st) (filter (hit_live st) hits)
                   | Some t \<Rightarrow> filter (\<lambda>r. res_score r \<le> t)
                                (map (hit_result st) (filter (hit_live st) hits)))"
proof (cases "ntotal (index st) = 0")
  case True
  with assms have "rs = []" by (simp add: search_def)
  moreover have "nearest_hits (index st) q []" by (simp add: nearest_hits_def)
  ultimately show ?thesis using True
    by (intro exI [of _ "[]"]) (simp split: option.split)
next
  case False
  define m where "m = nat (min top_k (int (ntotal (index st))))"
  define hits where "hits = take m (ranked_hits (index st) q)"
  from False assms have ok: "length q = idx_d (index st)" "0 < top_k"
    by (auto simp: search_def index_search_def split: if_splits)
  then have found: "index_search (index st) q (min top_k (int (ntotal (index st)))) = Inr hits"
    using False by (simp add: index_search_def hits_def m_def ranked_hits_def)
  have len: "length hits = m"
    using ok False by (simp add: hits_def m_def ranked_hits_def ntotal_def)
  have near: "nearest_hits (index st) q hits"
    unfolding hits_def by (rule nearest_hits_ranked)
  from assms False found have "rs = (case thr of None \<Rightarrow> search_loop st hits
                   | Some t \<Rightarrow> filter (\<lambda>r. res_score r \<le> t) (search_loop st hits))"
    by (auto simp: search_def Let_def split: option.splits)
  with len near show ?thesis
    unfolding m_def search_loop_live_hits by blast
qed

lemma search_result_from_live_hit:
  assumes "search st q top_k thr = Inr rs" and "r \<in> set rs"
  shows "\<exists>i info. i < ntotal (index st) \<and> live_entry st i
          \<and> res_doc_id r = doc_ids st ! i \<and> documents st (res_doc_id r) = Some info
          \<and> res_chunk r = chunk_at (chunks info) (i - chunk_start_idx info)
          \<and> res_score r = l2sq q (xb (index st) ! i)"
proof -
  from search_characterisation [OF assms(1)] obtain hits where
    near: "nearest_hits (index st) q hits"
    and rs: "rs = (case thr of None \<Rightarrow> map (hit_result st) (filter (hit_live st) hits)
                   | Some t \<Rightarrow> filter (\<lambda>r. res_score r \<le> t)
                                (map (hit_result st) (filter (hit_live st) hits)))"
    by blast
  from rs assms(2) have "r \<in> set (map (hit_result st) (filter (hit_live st) hits))"
    by (cases thr) auto
  then obtain h where h: "h \<in> set hits" "hit_live st h" "r = hit_result st h"
    by auto
  define i where "i = nat (snd h)"
  from near h(1) have n: "i < ntotal (index st)" "fst h = l2sq q (xb (index st) ! i)"
    by (auto simp: nearest_hits_def i_def)
  from h(2) have live: "live_entry st i"
    by (simp add: hit_live_def i_def)
  then obtain info where info: "documents st (doc_ids st ! i) = Some info"
    by (auto simp: live_entry_def split: option.splits)
  from h(3) info n(2) have
    "res_doc_id r = doc_ids st ! i" "documents st (res_doc_id r) = Some info"
    "res_chunk r = chunk_at (chunks info) (i - chunk_start_idx info)"
    "res_score r = l2sq q (xb (index st) ! i)"
    by (simp_all add: hit_result_def i_def)
  with n(1) live show ?thesis by blast
qed

lemma search_loop_cong:
  assumes "documents st' = documents st" and "doc_ids st' = doc_ids st"
  shows "search_loop st' hits = search_loop st hits"
proof (induction hits)
  case Nil
  show ?case by simp
next
  case (Cons h hits)
  obtain distance i where "h = (distance, i)" by (cases h)
  with Cons.IH assms show ?case by (simp add: Let_def split: option.split)
qed

lemma search_cong:
  assumes "documents st' = documents st" and "doc_ids st' = doc_ids st"
    and "index st' = index st"
  shows "search st' q top_k thr = search st q top_k thr"
  by (simp add: search_def assms search_loop_cong [OF assms(1,2)] split: sum.split)

lemma add_document_Inr:
  assumes "add_document io did cs es md st e = (Inr r, st', e')"
  shows "e' = log_event (LogAdded did (len_chunks cs)) (save io st' e)"
proof (cases "np_array_float32 es")
  case (Inl ex)
  with assms show ?thesis by (simp add: add_document_def Let_def)
next
  case (Inr rows)
  show ?thesis
  proof (cases "index_add (index st) rows")
    case (Inl ex)
    with Inr assms show ?thesis by (simp add: add_document_def Let_def)
  next
    case ix: (Inr ix)
    with Inr assms show ?thesis by (auto simp: add_document_def Let_def)
  qed
qed

lemma remove_document_True:
  assumes "remove_document io did st e = (True, st', e')"
  shows "e' = log_event (LogRemoved did) (save io st' e)"
  using assms by (auto simp: remove_document_def Let_def split: if_splits)

lemma add_document_keeps_count:
  assumes "lookup_matches_index st" and "len_chunks cs = len_embeddings es"
  shows "lookup_matches_index (fst (snd (add_document io did cs es md st e)))"
proof (cases "np_array_float32 es")
  case (Inl ex)
  with assms(1) show ?thesis
    by (simp add: add_document_def lookup_matches_index_def Let_def)
next
  case (Inr rows)
  then have es: "es = EmbRows rows"
    by (cases es) (simp_all split: if_splits)
  show ?thesis
  proof (cases "index_add (index st) rows")
    case (Inl ex)
    with Inr assms(1) show ?thesis
      by (simp add: add_document_def lookup_matches_index_def Let_def)
  next
    case ix: (Inr ix)
    then have "xb ix = xb (index st) @ rows"
      by (auto simp: index_add_def split: if_splits)
    with ix Inr assms es show ?thesis
      by (simp add: add_document_def lookup_matches_index_def Let_def ntotal_def)
  qed
qed

lemma remove_document_keeps_count:
  "lookup_matches_index st \<Longrightarrow> lookup_matches_index (fst (snd (remove_document io did st e)))"
  by (simp add: remove_document_def lookup_matches_index_def Let_def)

lemma apply_op_keeps_count:
  "lookup_matches_index (fst s) \<Longrightarrow> precondition x \<Longrightarrow> lookup_matches_index (fst (apply_op x s))"
  by (cases x; cases s) (simp_all add: add_document_keeps_count remove_document_keeps_count)

lemma run_ops_keeps_count:
  "lookup_matches_index (fst s) \<Longrightarrow> \<forall>x \<in> set ops. precondition x
     \<Longrightarrow> lookup_matches_index (fst (run_ops ops s))"
  by (induction ops arbitrary: s) (simp_all add: apply_op_keeps_count)

section \<open>Search results and the document store\<close>

text \<open>
  C1. The results of \<^verbatim>\<open>search\<close> are exactly the results of the live hits among the raw
  nearest neighbours (after the threshold, if one is given): every result comes from a
  position of the index whose document is in the document map at that moment and whose
  offset lies inside that document's chunks, and carries that document's id, the chunk at
  that offset and the distance of that position's vector. A raw hit whose document is
  absent or whose chunk index is out of range gives no result. After
  \<^verbatim>\<open>remove_document(d)\<close> has returned \<^verbatim>\<open>True\<close> the index and the id-lookup sequence are
  as before (the vectors of \<open>d\<close> stay in the index), and no search on the resulting store,
  for any query vector, \<open>top_k\<close> and threshold, returns a result with document id \<open>d\<close>.
\<close>

theorem search_results_in_document_store:
  "(search st q top_k thr = Inr rs \<longrightarrow>
      (\<exists>hits. length hits = nat (min top_k (int (ntotal (index st))))
           \<and> nearest_hits (index st) q hits
           \<and> rs = (case thr of None \<Rightarrow> map (hit_result st) (filter (hit_live st) hits)
                   | Some t \<Rightarrow> filter (\<lambda>r. res_score r \<le> t)
                                (map (hit_result st) (filter (hit_live st) hits))))
      \<and> (\<forall>r \<in> set rs. \<exists>i info. i < ntotal (index st) \<and> live_entry st i
          \<and> res_doc_id r = doc_ids st ! i \<and> documents st (res_doc_id r) = Some info
          \<and> res_chunk r = chunk_at (chunks info) (i - chunk_start_idx info)
          \<and> res_score r = l2sq q (xb (index st) ! i)))
   \<and> (remove_document io d st0 e = (True, st1, e1) \<longrightarrow>
        index st1 = index st0 \<and> doc_ids st1 = doc_ids st0
        \<and> (\<forall>q' k' thr' rs'. search st1 q' k' thr' = Inr rs' \<longrightarrow> (\<forall>r \<in> set rs'. res_doc_id r \<noteq> d)))"
proof (intro conjI impI)
  assume "search st q top_k thr = Inr rs"
  then show "\<exists>hits. length hits = nat (min top_k (int (ntotal (index st))))
           \<and> nearest_hits (index st) q hits
           \<and> rs = (case thr of None \<Rightarrow> map (hit_result st) (filter (hit_live st) hits)
                   | Some t \<Rightarrow> filter (\<lambda>r. res_score r \<le> t)
                                (map (hit_result st) (filter (hit_live st) hits)))"
    by (rule search_characterisation)
next
  assume "search st q top_k thr = Inr rs"
  then show "\<forall>r \<in> set rs. \<exists>i info. i < ntotal (index st) \<and> live_entry st i
          \<and> res_doc_id r = doc_ids st ! i \<and> documents st (res_doc_id r) = Some info
          \<and> res_chunk r = chunk_at (chunks info) (i - chunk_start_idx info)
          \<and> res_score r = l2sq q (xb (index st) ! i)"
    using search_result_from_live_hit by blast
next
  assume rm: "remove_document io d st0 e = (True, st1, e1)"
  then have st1: "st1 = st0\<lparr>documents := (documents st0)(d := None)\<rparr>"
    by (auto simp: remove_document_def Let_def split: if_splits)
  then show "index st1 = index st0" and "doc_ids st1 = doc_ids st0"
    by simp_all
  from st1 have gone: "documents st1 d = None" by simp
  show "\<forall>q' k' thr' rs'. search st1 q' k' thr' = Inr rs' \<longrightarrow> (\<forall>r \<in> set rs'. res_doc_id r \<noteq> d)"
  proof (intro allI impI ballI)
    fix q' k' thr' rs' r
    assume "search st1 q' k' thr' = Inr rs'" and "r \<in> set rs'"
    then obtain info where "documents st1 (res_doc_id r) = Some info"
      using search_result_from_live_hit by blast
    with gone show "res_doc_id r \<noteq> d" by auto
  qed
qed

theorem search_results_in_document_store_witness:
  "search example_store [1, 0] 3 None
     = Inr [\<lparr>res_doc_id = ''B'', res_chunk = ''birds'', res_score = 41\<rparr>]
   \<and> remove_document WriteOk ''A'' store_AB example_env
     = (True, example_store, log_event (LogRemoved ''A'') (save WriteOk example_store example_env))
   \<and> doc_ids example_store = doc_ids store_AB
   \<and> index example_store = index store_AB
   \<and> res_doc_id \<lparr>res_doc_id = ''B'', res_chunk = ''birds'', res_score = 41\<rparr> \<noteq> ''A''
   \<and> (\<exists>i info. i < ntotal (index example_store) \<and> live_entry example_store i
          \<and> ''B'' = doc_ids example_store ! i \<and> documents example_store ''B'' = Some info
          \<and> ''birds'' = chunk_at (chunks info) (i - chunk_start_idx info)
          \<and> 41 = l2sq [1, 0] (xb (index example_store) ! i))"
proof -
  note inst = search_results_in_document_store
    [of example_store "[1, 0]" 3 None
        "[\<lparr>res_doc_id = ''B'', res_chunk = ''birds'', res_score = 41\<rparr>]"
        WriteOk "''A''" store_AB example_env example_store
        "log_event (LogRemoved ''A'') (save WriteOk example_store example_env)"]
  have s: "search example_store [1, 0] 3 None
     = Inr [\<lparr>res_doc_id = ''B'', res_chunk = ''birds'', res_score = 41\<rparr>]"
    by (rule search_example_store)
  have r: "remove_document WriteOk ''A'' store_AB example_env
     = (True, example_store, log_event (LogRemoved ''A'') (save WriteOk example_store example_env))"
    by (rule remove_A_from_store_AB)
  have m: "\<lparr>res_doc_id = ''B'', res_chunk = ''birds'', res_score = 41\<rparr>
      \<in> set [\<lparr>res_doc_id = ''B'', res_chunk = ''birds'', res_score = 41\<rparr>]"
    by simp
  from inst s have "\<forall>r \<in> set [\<lparr>res_doc_id = ''B'', res_chunk = ''birds'', res_score = 41\<rparr>].
      \<exists>i info. i < ntotal (index example_store) \<and> live_entry example_store i
          \<and> res_doc_id r = doc_ids example_store ! i
          \<and> documents example_store (res_doc_id r) = Some info
          \<and> res_chunk r = chunk_at (chunks info) (i - chunk_start_idx info)
          \<and> res_score r = l2sq [1, 0] (xb (index example_store) ! i)"
    by blast
  then have live: "\<exists>i info. i < ntotal (index example_store) \<and> live_entry example_store i
          \<and> ''B'' = doc_ids example_store ! i \<and> documents example_store ''B'' = Some info
          \<and> ''birds'' = chunk_at (chunks info) (i - chunk_start_idx info)
          \<and> 41 = l2sq [1, 0] (xb (index example_store) ! i)"
    by simp
  from inst r have kept: "index example_store = index store_AB"
      "doc_ids example_store = doc_ids store_AB"
    and gone: "\<forall>q' k' thr' rs'. search example_store q' k' thr' = Inr rs'
          \<longrightarrow> (\<forall>r \<in> set rs'. res_doc_id r \<noteq> ''A'')"
    by blast+
  from gone s m have "res_doc_id \<lparr>res_doc_id = ''B'', res_chunk = ''birds'', res_score = 41\<rparr> \<noteq> ''A''"
    by blast
  with s r live kept show ?thesis by blast
qed

section \<open>The id-lookup sequence and the index\<close>

text \<open>
  C4. Starting from the empty store, after any sequence of \<^verbatim>\<open>add_document\<close> and
  \<^verbatim>\<open>remove_document\<close> calls in which every \<^verbatim>\<open>add_document\<close> call satisfies
  \<^verbatim>\<open>len(chunks) == len(embeddings)\<close>, the id-lookup sequence \<^verbatim>\<open>doc_ids\<close> is as long as
  the index has vectors (\<^verbatim>\<open>index.ntotal\<close>). The identifiers need not be fresh for this,
  and a call that raises keeps the two lengths equal as well.
\<close>

theorem doc_ids_length_eq_ntotal:
  assumes "\<forall>x \<in> set ops. precondition x"
  shows "length (doc_ids (fst (run_ops ops (fresh_store n, e))))
           = ntotal (index (fst (run_ops ops (fresh_store n, e))))"
proof -
  have "lookup_matches_index (fst (fresh_store n, e))"
    by (simp add: lookup_matches_index_def fresh_store_def ntotal_def IndexFlatL2_def)
  from run_ops_keeps_count [OF this assms] show ?thesis
    by (simp add: lookup_matches_index_def)
qed

theorem doc_ids_length_eq_ntotal_witness:
  "list_all precondition example_ops
   \<and> length (doc_ids (fst (run_ops example_ops (fresh_store 2, example_env)))) = 3
   \<and> ntotal (index (fst (run_ops example_ops (fresh_store 2, example_env)))) = 3"
proof -
  have h: "\<forall>x \<in> set example_ops. precondition x"
    by (simp add: example_ops_def)
  have "length (doc_ids (fst (run_ops example_ops (fresh_store 2, example_env)))) = 3"
    using example_store_eq by (simp add: example_store_def)
  with h doc_ids_length_eq_ntotal [OF h, of 2 example_env] show ?thesis
    by (simp add: list_all_iff)
qed

section \<open>Saving and loading\<close>

text \<open>
  C6. For every store, when the write of \<^verbatim>\<open>save()\<close> completes, \<^verbatim>\<open>load()\<close> on a fresh
  store over the same file gives a store with the same document records, the same
  id-lookup sequence and the same index, whose \<^verbatim>\<open>search\<close> returns what the original
  store's returns for every query vector, \<open>top_k\<close> and threshold; loading once more
  changes nothing.
\<close>

theorem save_load_roundtrip:
  "\<exists>st' e'. load (fresh_store n) (save WriteOk st e) = Inr (st', e')
      \<and> documents st' = documents st \<and> doc_ids st' = doc_ids st \<and> index st' = index st
      \<and> (\<forall>q top_k thr. search st' q top_k thr = search st q top_k thr)
      \<and> (\<exists>e''. load st' e' = Inr (st', e''))"
proof -
  define st' where
    "st' = (fresh_store n)\<lparr>documents := documents st, doc_ids := doc_ids st, index := index st\<rparr>"
  define e' where "e' = log_event (LogLoaded (length (doc_ids st))) (save WriteOk st e)"
  have fields: "documents st' = documents st" "doc_ids st' = doc_ids st" "index st' = index st"
    by (simp_all add: st'_def)
  have l: "load (fresh_store n) (save WriteOk st e) = Inr (st', e')"
    unfolding st'_def e'_def
    by (rule load_complete_file) (simp add: disk_save_ok complete_file_def)
  have s: "\<forall>q top_k thr. search st' q top_k thr = search st q top_k thr"
    by (intro allI search_cong fields)
  have d: "disk e' = Some (Pickle (PickledDict (Some (documents st)) (Some (doc_ids st))
                                     (Some (Blob (index st)))))"
    by (simp add: e'_def disk_save_ok complete_file_def)
  have "load st' e' = Inr (st'\<lparr>documents := documents st, doc_ids := doc_ids st, index := index st\<rparr>,
                           log_event (LogLoaded (length (doc_ids st))) e')"
    by (rule load_complete_file) (rule d)
  also have "st'\<lparr>documents := documents st, doc_ids := doc_ids st, index := index st\<rparr> = st'"
    by (simp add: st'_def)
  finally have l2: "\<exists>e''. load st' e' = Inr (st', e'')" by blast
  show ?thesis
    by (rule exI [of _ st'], rule exI [of _ e']) (intro conjI l fields s l2)
qed

theorem save_load_roundtrip_witness:
  "\<exists>st' e'. load (fresh_store 2) (save WriteOk store_AB example_env) = Inr (st', e')
      \<and> documents st' = documents store_AB \<and> doc_ids st' = [''A'', ''A'', ''B'']
      \<and> search st' [1, 0] 1 None
           = Inr [\<lparr>res_doc_id = ''A'', res_chunk = ''cats'', res_score = 0\<rparr>]"
proof -
  have s: "search store_AB [1, 0] 1 None
           = Inr [\<lparr>res_doc_id = ''A'', res_chunk = ''cats'', res_score = 0\<rparr>]"
    by (simp add: store_AB_eq search_def ntotal_def index_search_def l2sq_def Let_def)
  have i: "doc_ids store_AB = [''A'', ''A'', ''B'']"
    by (simp add: store_AB_eq)
  from save_load_roundtrip [of 2 store_AB example_env] obtain st' e' where
    "load (fresh_store 2) (save WriteOk store_AB example_env) = Inr (st', e')"
    "documents st' = documents store_AB" "doc_ids st' = doc_ids store_AB"
    "\<forall>q top_k thr. search st' q top_k thr = search store_AB q top_k thr"
    by blast
  with s i show ?thesis by auto
qed

text \<open>
  C7. \<^verbatim>\<open>add_document\<close>, when it returns the identifier, and \<^verbatim>\<open>remove_document\<close>, when
  the document exists, call \<^verbatim>\<open>save()\<close> before they return, and when the write completes
  the store file holds the full store: document map, id-lookup sequence and serialized
  index. The write itself goes straight to the store file, which \<^verbatim>\<open>open(path, 'wb')\<close>
  truncates first: an error during \<^verbatim>\<open>pickle.dump\<close> leaves a file that is neither the old
  store nor the new one, while the call still reports success.
\<close>

theorem mutating_calls_save_full_store:
  "(add_document WriteOk did cs es md st e = (Inr r, st', e')
      \<longrightarrow> disk e' = Some (complete_file st'))
   \<and> (remove_document WriteOk did2 st2 e2 = (True, st2', e2')
      \<longrightarrow> disk e2' = Some (complete_file st2'))"
proof (intro conjI impI)
  assume "add_document WriteOk did cs es md st e = (Inr r, st', e')"
  from add_document_Inr [OF this] show "disk e' = Some (complete_file st')"
    by (simp add: disk_save_ok)
next
  assume "remove_document WriteOk did2 st2 e2 = (True, st2', e2')"
  from remove_document_True [OF this] show "disk e2' = Some (complete_file st2')"
    by (simp add: disk_save_ok)
qed

theorem mutating_calls_save_full_store_witness:
  "add_document WriteOk ''B'' (ChunkList [''birds'']) (EmbRows [[5, 5]]) None store_A example_env
     = (Inr ''B'', store_AB, log_event (LogAdded ''B'' 1) (save WriteOk store_AB example_env))
   \<and> disk (log_event (LogAdded ''B'' 1) (save WriteOk store_AB example_env))
       = Some (complete_file store_AB)
   \<and> remove_document WriteOk ''A'' store_AB example_env
     = (True, example_store, log_event (LogRemoved ''A'') (save WriteOk example_store example_env))
   \<and> disk (log_event (LogRemoved ''A'') (save WriteOk example_store example_env))
       = Some (complete_file example_store)"
proof -
  note inst = mutating_calls_save_full_store
    [of "''B''" "ChunkList [''birds'']" "EmbRows [[5, 5]]" None store_A example_env "''B''" store_AB
        "log_event (LogAdded ''B'' 1) (save WriteOk store_AB example_env)"
        "''A''" store_AB example_env example_store
        "log_event (LogRemoved ''A'') (save WriteOk example_store example_env)"]
  from inst add_B_to_store_A remove_A_from_store_AB show ?thesis by blast
qed

theorem save_not_atomic_counterexample:
  "disk (save WriteOk store_AB example_env) = Some (complete_file store_AB)
   \<and> remove_document DumpFails ''A'' store_AB (save WriteOk store_AB example_env)
       = (True, example_store,
          log_event (LogRemoved ''A'')
            (save DumpFails example_store (save WriteOk store_AB example_env)))
   \<and> disk (snd (snd (remove_document DumpFails ''A'' store_AB (save WriteOk store_AB example_env))))
       = Some Unreadable"
proof -
  have a: "disk (save WriteOk store_AB example_env) = Some (complete_file store_AB)"
    by (rule disk_save_ok)
  have b: "remove_document DumpFails ''A'' store_AB (save WriteOk store_AB example_env)
       = (True, example_store,
          log_event (LogRemoved ''A'')
            (save DumpFails example_store (save WriteOk store_AB example_env)))"
    by (simp add: store_AB_eq example_store_eq remove_document_def Let_def fun_upd_twist)
  have c: "disk (log_event (LogRemoved ''A'')
            (save DumpFails example_store (save WriteOk store_AB example_env))) = Some Unreadable"
    by (simp add: save_def)
  from a b c show ?thesis by simp
qed

text \<open>
  C8. \<^verbatim>\<open>load\<close> never raises. With no store file the store stays as it is, which for a
  fresh store is the empty one. When the file exists and the \<^verbatim>\<open>try\<close> block raises
  (\<^verbatim>\<open>pickle.load\<close> fails, the pickled object is no dictionary, or the index bytes are
  rejected), the document map and the id-lookup sequence are empty afterwards and the
  failure is logged.
\<close>

theorem load_never_raises:
  "(\<exists>st' e'. load st e = Inr (st', e'))
   \<and> (disk e = None \<longrightarrow> load st e = Inr (st, log_event LogNoStore e))
   \<and> (disk e = None \<longrightarrow>
        (\<exists>e'. load (fresh_store n) e = Inr (fresh_store n, e'))
        \<and> documents (fresh_store n) = Map.empty \<and> doc_ids (fresh_store n) = []
        \<and> ntotal (index (fresh_store n)) = 0)
   \<and> (\<forall>f ex s. disk e = Some f \<and> load_try f st = Inl (ex, s) \<longrightarrow>
        (\<exists>st'. load st e = Inr (st', log_event (LogLoadFailed ex) e)
            \<and> documents st' = Map.empty \<and> doc_ids st' = []))"
proof (intro conjI impI allI)
  show "\<exists>st' e'. load st e = Inr (st', e')"
    by (auto simp: load_def split: option.split sum.split)
next
  assume "disk e = None"
  then show "load st e = Inr (st, log_event LogNoStore e)"
    by (simp add: load_def)
next
  assume "disk e = None"
  then show "\<exists>e'. load (fresh_store n) e = Inr (fresh_store n, e')"
    by (simp add: load_def)
next
  show "documents (fresh_store n) = Map.empty" "doc_ids (fresh_store n) = []"
    "ntotal (index (fresh_store n)) = 0"
    by (simp_all add: fresh_store_def IndexFlatL2_def ntotal_def)
next
  fix f ex s
  assume "disk e = Some f \<and> load_try f st = Inl (ex, s)"
  then show "\<exists>st'. load st e = Inr (st', log_event (LogLoadFailed ex) e)
            \<and> documents st' = Map.empty \<and> doc_ids st' = []"
    by (simp add: load_def)
qed

theorem load_never_raises_witness:
  "disk \<lparr>disk = Some Unreadable, logged = []\<rparr> = Some Unreadable
   \<and> load_try Unreadable store_AB = Inl (UnpicklingError, store_AB)
   \<and> disk example_env = None
   \<and> load (fresh_store 2) example_env = Inr (fresh_store 2, log_event LogNoStore example_env)
   \<and> (\<exists>st'. load store_AB \<lparr>disk = Some Unreadable, logged = []\<rparr>
          = Inr (st', log_event (LogLoadFailed UnpicklingError) \<lparr>disk = Some Unreadable, logged = []\<rparr>)
        \<and> documents st' = Map.empty \<and> doc_ids st' = [])"
proof -
  have t: "load_try Unreadable store_AB = Inl (UnpicklingError, store_AB)"
    by (simp add: load_try_def)
  have d: "disk \<lparr>disk = Some Unreadable, logged = []\<rparr> = Some Unreadable" by simp
  have n: "disk example_env = None" by (simp add: example_env_def)
  from load_never_raises [of "fresh_store 2" example_env 2] n
  have a: "load (fresh_store 2) example_env = Inr (fresh_store 2, log_event LogNoStore example_env)"
    by blast
  from load_never_raises [of store_AB "\<lparr>disk = Some Unreadable, logged = []\<rparr>" 2] t d
  have b: "\<exists>st'. load store_AB \<lparr>disk = Some Unreadable, logged = []\<rparr>
          = Inr (st', log_event (LogLoadFailed UnpicklingError) \<lparr>disk = Some Unreadable, logged = []\<rparr>)
        \<and> documents st' = Map.empty \<and> doc_ids st' = []"
    by blast
  from t d n a b show ?thesis by blast
qed

lemma search_example_store_top2: "search example_store [1, 0] 2 None = Inr []"
  by (simp add: example_store_eq search_def ntotal_def index_search_def l2sq_def Let_def)

section \<open>How many raw hits search asks for\<close>

text \<open>
  C9. \<^verbatim>\<open>search(query_vector, top_k)\<close> with no threshold takes exactly \<open>min(top_k, ntotal)\<close>
  nearest neighbours from the index, never more, and returns the results of exactly those
  of them that are live (document in the document map, position inside its chunks), in
  that order. The number of results is \<open>min(top_k, ntotal)\<close> less the number of these hits
  that are not live: at most \<open>top_k\<close>, and fewer whenever one of the nearest raw hits
  references a removed document, also when the index holds \<open>top_k\<close> live entries.
\<close>

theorem search_raw_candidates:
  assumes "search st q top_k None = Inr rs"
  shows "\<exists>hits. length hits = nat (min top_k (int (ntotal (index st))))
      \<and> nearest_hits (index st) q hits
      \<and> rs = map (hit_result st) (filter (hit_live st) hits)
      \<and> length rs + length (filter (\<lambda>h. \<not> hit_live st h) hits)
          = nat (min top_k (int (ntotal (index st))))"
proof -
  from search_characterisation [OF assms] obtain hits where
    len: "length hits = nat (min top_k (int (ntotal (index st))))"
    and near: "nearest_hits (index st) q hits"
    and rs: "rs = map (hit_result st) (filter (hit_live st) hits)"
    by auto
  have "length rs + length (filter (\<lambda>h. \<not> hit_live st h) hits) = length hits"
    unfolding rs by (simp add: sum_length_filter_compl)
  with len near rs show ?thesis by auto
qed

theorem search_raw_candidates_witness:
  "search example_store [1, 0] 2 None = Inr []
   \<and> (\<exists>hits. length hits = 2
      \<and> nearest_hits (index example_store) [1, 0] hits
      \<and> [] = map (hit_result example_store) (filter (hit_live example_store) hits)
      \<and> length (filter (\<lambda>h. \<not> hit_live example_store h) hits) = 2)"
proof -
  have n: "nat (min 2 (int (ntotal (index example_store)))) = 2"
    by (simp add: example_store_eq ntotal_def)
  from search_raw_candidates [OF search_example_store_top2] show ?thesis
    unfolding n using search_example_store_top2 by simp
qed

theorem search_top_k_counterexample:
  "length (live_entries example_store) = 1
   \<and> search example_store [1, 0] 1 None = Inr []"
  by (simp add: example_store_eq live_entries_def live_entry_def ntotal_def search_def
      index_search_def l2sq_def Let_def upt_rec)

section \<open>Removing an absent document\<close>

text \<open>
  C10. \<^verbatim>\<open>remove_document\<close> with an identifier that is not in the document map returns
  \<^verbatim>\<open>False\<close> and leaves the whole store (document map, id-lookup sequence and index) and
  the store file as they were, whatever the file system would do to a write: no save is
  performed.
\<close>

theorem remove_document_absent:
  assumes "did \<notin> dom (documents st)"
  shows "remove_document io did st e = (False, st, log_event (LogNotFound did) e)
       \<and> disk (snd (snd (remove_document io did st e))) = disk e"
  using assms by (simp add: remove_document_def)

theorem remove_document_absent_witness:
  "''missing'' \<notin> dom (documents store_AB)
   \<and> remove_document WriteOk ''missing'' store_AB example_env
       = (False, store_AB, log_event (LogNotFound ''missing'') example_env)
   \<and> disk (snd (snd (remove_document WriteOk ''missing'' store_AB example_env))) = disk example_env"
proof -
  have h: "''missing'' \<notin> dom (documents store_AB)"
    by (simp add: store_AB_eq)
  from remove_document_absent [OF h] h show ?thesis by blast
qed

section \<open>Chunking\<close>

lemma weight_Nil [simp]: "weight d [] = 0"
  by (simp add: weight_def)

lemma weight_Cons [simp]: "weight d (x # xs) = length x + d + weight d xs"
  by (simp add: weight_def)

lemma weight_append [simp]: "weight d (xs @ ys) = weight d xs + weight d ys"
  by (simp add: weight_def)

lemma length_join_with:
  "xs \<noteq> [] \<Longrightarrow> length (join_with sep xs) + length sep = weight (length sep) xs"
  by (induction sep xs rule: join_with.induct) simp_all

lemma weight_drop: "weight d (drop n xs) \<le> weight d xs"
proof -
  have "weight d xs = weight d (take n xs) + weight d (drop n xs)"
    by (metis append_take_drop_id weight_append)
  then show ?thesis by simp
qed

lemma weight_split_blank_lines:
  "weight 2 (split_blank_lines cur s) = length cur + length s + 2"
  by (induction cur s rule: split_blank_lines.induct) simp_all

lemma weight_split_sentences_from:
  "weight 1 (split_sentences_from skipping cur s) \<le> length cur + length s + 1"
  by (induction skipping cur s rule: split_sentences_from.induct) auto

lemma weight_split_sentences: "weight 1 (split_sentences p) \<le> length p + 1"
  using weight_split_sentences_from [of False "[]" p] by (simp add: split_sentences_def)

lemma length_strip: "length (strip s) \<le> length s"
proof -
  have "length (strip s) \<le> length (dropWhile is_space s)"
    unfolding strip_def
    using length_dropWhile_le [of is_space "rev (dropWhile is_space s)"] by simp
  also have "\<dots> \<le> length s" by (rule length_dropWhile_le)
  finally show ?thesis .
qed

lemma weight_paragraphs:
  "weight d (filter (\<lambda>p. p \<noteq> []) (map strip xs)) \<le> weight d xs"
proof (induction xs)
  case Nil
  show ?case by simp
next
  case (Cons x xs)
  with length_strip [of x] show ?case by simp
qed

lemma sentence_loop_bound:
  assumes "sentence_loop cs ss (acc, sc, scl) = (acc', sc', scl')"
  shows "(\<forall>c \<in> set acc'. c \<in> set acc \<or> length c + 1 \<le> weight 1 (sc @ ss))
       \<and> weight 1 sc' \<le> weight 1 (sc @ ss)"
  using assms
proof (induction ss arbitrary: acc sc scl)
  case Nil
  then show ?case by simp
next
  case (Cons s ss)
  show ?case
  proof (cases "scl + int (length s) > cs \<and> sc \<noteq> []")
    case True
    define ls where "ls = (if length sc \<ge> 2 then drop (length sc - 2) sc else sc)"
    have ls: "weight 1 ls \<le> weight 1 sc"
      by (simp add: ls_def weight_drop)
    from True Cons.prems obtain n where
      "sentence_loop cs ss (acc @ [join_with '' '' sc], ls @ [s], n) = (acc', sc', scl')"
      by (simp add: Let_def ls_def)
    from Cons.IH [OF this]
    have ih: "\<forall>c \<in> set acc'. c \<in> set (acc @ [join_with '' '' sc])
                 \<or> length c + 1 \<le> weight 1 ((ls @ [s]) @ ss)"
      and ih2: "weight 1 sc' \<le> weight 1 ((ls @ [s]) @ ss)"
      by blast+
    from True have j: "length (join_with '' '' sc) + 1 = weight 1 sc"
      using length_join_with [of sc "'' ''"] by simp
    have mono: "weight 1 ((ls @ [s]) @ ss) \<le> weight 1 (sc @ s # ss)"
      using ls by simp
    show ?thesis
    proof (intro conjI ballI)
      fix c assume "c \<in> set acc'"
      with ih have "c \<in> set acc \<or> c = join_with '' '' sc
                    \<or> length c + 1 \<le> weight 1 ((ls @ [s]) @ ss)"
        by auto
      then show "c \<in> set acc \<or> length c + 1 \<le> weight 1 (sc @ s # ss)"
        using j mono by auto
    next
      from ih2 mono show "weight 1 sc' \<le> weight 1 (sc @ s # ss)" by linarith
    qed
  next
    case False
    with Cons.prems have
      "sentence_loop cs ss (acc, sc @ [s], scl + int (length s) + 1) = (acc', sc', scl')"
      by auto
    from Cons.IH [OF this] show ?thesis by simp
  qed
qed

lemma weight_last: "xs \<noteq> [] \<Longrightarrow> weight d [last xs] \<le> weight d xs"
proof -
  assume "xs \<noteq> []"
  then have "xs = butlast xs @ [last xs]" by simp
  then have "weight d xs = weight d (butlast xs) + weight d [last xs]"
    by (metis weight_append)
  then show ?thesis by simp
qed

lemma length_join_blank_lines:
  "xs \<noteq> [] \<Longrightarrow> length (join_with [CHR 0x0A, CHR 0x0A] xs) + 2 = weight 2 xs"
  using length_join_with [of xs "[CHR 0x0A, CHR 0x0A]"] by (simp add: numeral_2_eq_2)

lemma length_join_space:
  "xs \<noteq> [] \<Longrightarrow> length (join_with '' '' xs) + 1 = weight 1 xs"
  using length_join_with [of xs "'' ''"] by simp

lemma paragraph_loop_bound:
  assumes "paragraph_loop cs ps (acc, cc, cl) = (acc', cc', cl')"
  shows "(\<forall>c \<in> set acc'. c \<in> set acc \<or> length c + 2 \<le> weight 2 (cc @ ps))
       \<and> weight 2 cc' \<le> weight 2 (cc @ ps)"
  using assms
proof (induction ps arbitrary: acc cc cl)
  case Nil
  then show ?case by simp
next
  case (Cons p ps)
  define chunks1 where
    "chunks1 = (if cc \<noteq> [] then acc @ [join_with [CHR 0x0A, CHR 0x0A] cc] else acc)"
  have c1: "\<forall>c \<in> set chunks1. c \<in> set acc \<or> length c + 2 \<le> weight 2 cc"
    using length_join_blank_lines [of cc] by (auto simp: chunks1_def)
  show ?case
  proof (cases "cl + int (length p) > cs")
    case False
    with Cons.prems have
      "paragraph_loop cs ps (acc, cc @ [p], cl + int (length p) + 2) = (acc', cc', cl')"
      by simp
    from Cons.IH [OF this] show ?thesis by simp
  next
    case over: True
    show ?thesis
    proof (cases "int (length p) > cs")
      case True
      obtain chunks2 sc scl where
        sl: "sentence_loop cs (split_sentences p) (chunks1, [], 0) = (chunks2, sc, scl)"
        by (cases "sentence_loop cs (split_sentences p) (chunks1, [], 0)") auto
      define chunks3 where
        "chunks3 = (if sc \<noteq> [] then chunks2 @ [join_with '' '' sc] else chunks2)"
      from sentence_loop_bound [OF sl] weight_split_sentences [of p]
      have c2: "\<forall>c \<in> set chunks2. c \<in> set chunks1 \<or> length c \<le> length p"
        and sc: "weight 1 sc \<le> length p + 1"
        by fastforce+
      have c3: "\<forall>c \<in> set chunks3. c \<in> set chunks1 \<or> length c \<le> length p"
        using c2 sc length_join_space [of sc] by (auto simp: chunks3_def)
      from over True Cons.prems sl [unfolded chunks1_def] have
        "paragraph_loop cs ps (chunks3, [], 0) = (acc', cc', cl')"
        by (simp add: chunks3_def)
      from Cons.IH [OF this]
      have ih: "\<forall>c \<in> set acc'. c \<in> set chunks3 \<or> length c + 2 \<le> weight 2 ps"
        and ih2: "weight 2 cc' \<le> weight 2 ps"
        by simp_all
      show ?thesis
      proof (intro conjI ballI)
        fix c assume "c \<in> set acc'"
        with ih c3 c1 have "c \<in> set acc \<or> length c + 2 \<le> weight 2 cc
            \<or> length c \<le> length p \<or> length c + 2 \<le> weight 2 ps"
          by blast
        then show "c \<in> set acc \<or> length c + 2 \<le> weight 2 (cc @ p # ps)"
          by auto
      next
        from ih2 show "weight 2 cc' \<le> weight 2 (cc @ p # ps)" by simp
      qed
    next
      case small: False
      show ?thesis
      proof (cases "cc \<noteq> [] \<and> length cc > 1")
        case True
        with over small Cons.prems have
          "paragraph_loop cs ps (chunks1, [last cc, p],
              int (length (last cc)) + int (length p)) = (acc', cc', cl')"
          by (simp add: chunks1_def)
        from Cons.IH [OF this]
        have ih: "\<forall>c \<in> set acc'. c \<in> set chunks1 \<or> length c + 2 \<le> weight 2 ([last cc, p] @ ps)"
          and ih2: "weight 2 cc' \<le> weight 2 ([last cc, p] @ ps)"
          by simp_all
        from True have m: "weight 2 ([last cc, p] @ ps) \<le> weight 2 (cc @ p # ps)"
          using weight_last [of cc 2] by simp
        show ?thesis
        proof (intro conjI ballI)
          fix c assume "c \<in> set acc'"
          with ih c1 have "c \<in> set acc \<or> length c + 2 \<le> weight 2 cc
              \<or> length c + 2 \<le> weight 2 ([last cc, p] @ ps)"
            by blast
          with m show "c \<in> set acc \<or> length c + 2 \<le> weight 2 (cc @ p # ps)"
            by auto
        next
          from ih2 m show "weight 2 cc' \<le> weight 2 (cc @ p # ps)" by linarith
        qed
      next
        case False
        with over small Cons.prems have
          "paragraph_loop cs ps (chunks1, [p], int (length p)) = (acc', cc', cl')"
          by (auto simp: chunks1_def)
        from Cons.IH [OF this]
        have ih: "\<forall>c \<in> set acc'. c \<in> set chunks1 \<or> length c + 2 \<le> weight 2 ([p] @ ps)"
          and ih2: "weight 2 cc' \<le> weight 2 ([p] @ ps)"
          by simp_all
        show ?thesis
        proof (intro conjI ballI)
          fix c assume "c \<in> set acc'"
          with ih c1 have "c \<in> set acc \<or> length c + 2 \<le> weight 2 cc
              \<or> length c + 2 \<le> weight 2 ([p] @ ps)"
            by blast
          then show "c \<in> set acc \<or> length c + 2 \<le> weight 2 (cc @ p # ps)"
            by auto
        next
          from ih2 show "weight 2 cc' \<le> weight 2 (cc @ p # ps)" by simp
        qed
      qed
    qed
  qed
qed

lemma split_into_chunks_length:
  assumes "c \<in> set (split_into_chunks text cs ov)"
  shows "length c \<le> length (ensure_text_is_string text)"
proof -
  define t where "t = ensure_text_is_string text"
  define ps where "ps = filter (\<lambda>p. p \<noteq> []) (map strip (split_blank_lines [] t))"
  obtain acc cc cl where pl: "paragraph_loop cs ps ([], [], 0) = (acc, cc, cl)"
    by (cases "paragraph_loop cs ps ([], [], 0)") auto
  have w: "weight 2 ps \<le> length t + 2"
    using weight_paragraphs [of 2 "split_blank_lines [] t"] weight_split_blank_lines [of "[]" t]
    by (simp add: ps_def)
  from paragraph_loop_bound [OF pl]
  have b: "\<forall>c \<in> set acc. length c + 2 \<le> weight 2 ps" and b2: "weight 2 cc \<le> weight 2 ps"
    by simp_all
  from assms pl have "t \<noteq> []" and
    "c \<in> set (if cc \<noteq> [] then acc @ [join_with [CHR 0x0A, CHR 0x0A] cc] else acc)"
    by (auto simp: split_into_chunks_def Let_def t_def ps_def split: if_splits)
  then have "c \<in> set acc \<or> (cc \<noteq> [] \<and> c = join_with [CHR 0x0A, CHR 0x0A] cc)"
    by (auto split: if_splits)
  then have "length c + 2 \<le> weight 2 ps"
    using b b2 length_join_blank_lines [of cc] by auto
  with w show ?thesis by (simp add: t_def)
qed

lemma has_sentence_boundary_append:
  "has_sentence_boundary (xs @ a # b # ys) \<longleftrightarrow>
     has_sentence_boundary (xs @ [a]) \<or> (sentence_end a \<and> is_space b)
       \<or> has_sentence_boundary (b # ys)"
  by (induction xs rule: has_sentence_boundary.induct) auto

lemma no_boundary_split_sentences_from:
  "\<not> has_sentence_boundary (rev cur @ s) \<Longrightarrow> split_sentences_from False cur s = [rev cur @ s]"
proof (induction s arbitrary: cur)
  case Nil
  show ?case by simp
next
  case (Cons c cs)
  have no: "\<not> (is_space c \<and> cur \<noteq> [] \<and> sentence_end (hd cur))"
  proof
    assume a: "is_space c \<and> cur \<noteq> [] \<and> sentence_end (hd cur)"
    then have "rev cur @ c # cs = rev (tl cur) @ hd cur # c # cs" by (cases cur) simp_all
    with a Cons.prems show False
      by (simp add: has_sentence_boundary_append)
  qed
  from Cons.prems have "\<not> has_sentence_boundary (rev (c # cur) @ cs)" by simp
  from Cons.IH [OF this] no show ?case by auto
qed

lemma no_boundary_split_sentences:
  "\<not> has_sentence_boundary p \<Longrightarrow> split_sentences p = [p]"
  using no_boundary_split_sentences_from [of "[]" p] by (simp add: split_sentences_def)

lemma no_blank_line_split:
  "\<not> has_blank_line s \<Longrightarrow> split_blank_lines cur s = [rev cur @ s]"
  by (induction cur s rule: split_blank_lines.induct) auto

lemma strip_clean:
  assumes "t \<noteq> []" and "\<not> is_space (hd t)" and "\<not> is_space (last t)"
  shows "strip t = t"
proof -
  from assms have a: "dropWhile is_space t = t" by (cases t) simp_all
  from assms have "rev t \<noteq> []" "\<not> is_space (hd (rev t))" by (simp_all add: hd_rev)
  then have "dropWhile is_space (rev t) = rev t" by (cases "rev t") simp_all
  with a show ?thesis by (simp add: strip_def)
qed

lemma sentence_loop_mono:
  "x \<in> set acc \<Longrightarrow> x \<in> set (fst (sentence_loop cs ss (acc, sc, scl)))"
  by (induction ss arbitrary: acc sc scl) (simp_all add: Let_def)

lemma paragraph_step:
  assumes "0 \<le> cl"
  shows "\<exists>acc' cc' cl'. paragraph_loop cs (p # ps) (acc, cc, cl) = paragraph_loop cs ps (acc', cc', cl')
           \<and> 0 \<le> cl' \<and> set acc \<subseteq> set acc'
           \<and> (cs < int (length p) \<and> \<not> has_sentence_boundary p \<longrightarrow> p \<in> set acc')"
proof (cases "cl + int (length p) > cs")
  case False
  with assms have "cs \<ge> int (length p)" by linarith
  with False assms show ?thesis
    by (intro exI [of _ acc] exI [of _ "cc @ [p]"] exI [of _ "cl + int (length p) + 2"]) simp
next
  case over: True
  define acc1 where
    "acc1 = (if cc \<noteq> [] then acc @ [join_with [CHR 0x0A, CHR 0x0A] cc] else acc)"
  have sub1: "set acc \<subseteq> set acc1" by (auto simp: acc1_def)
  show ?thesis
  proof (cases "int (length p) > cs")
    case True
    obtain acc2 sc scl where
      sl: "sentence_loop cs (split_sentences p) (acc1, [], 0) = (acc2, sc, scl)"
      by (cases "sentence_loop cs (split_sentences p) (acc1, [], 0)") auto
    define acc3 where "acc3 = (if sc \<noteq> [] then acc2 @ [join_with '' '' sc] else acc2)"
    have sub2: "set acc1 \<subseteq> set acc2"
      using sentence_loop_mono [of _ acc1 cs "split_sentences p" "[]" 0] sl by auto
    have sub3: "set acc \<subseteq> set acc3" using sub1 sub2 by (auto simp: acc3_def)
    have whole: "p \<in> set acc3" if "\<not> has_sentence_boundary p"
    proof -
      from that have "split_sentences p = [p]" by (rule no_boundary_split_sentences)
      with sl have "sc = [p]" by simp
      then show ?thesis by (simp add: acc3_def)
    qed
    from over True sl [unfolded acc1_def] have
      "paragraph_loop cs (p # ps) (acc, cc, cl) = paragraph_loop cs ps (acc3, [], 0)"
      by (simp add: acc3_def)
    with sub3 whole show ?thesis
      by (intro exI [of _ acc3] exI [of _ "[]"] exI [of _ 0]) simp
  next
    case small: False
    show ?thesis
    proof (cases "cc \<noteq> [] \<and> length cc > 1")
      case True
      with over small have
        "paragraph_loop cs (p # ps) (acc, cc, cl)
           = paragraph_loop cs ps (acc1, [last cc, p], int (length (last cc)) + int (length p))"
        by (simp add: acc1_def)
      with sub1 small show ?thesis
        by (intro exI [of _ acc1] exI [of _ "[last cc, p]"]
              exI [of _ "int (length (last cc)) + int (length p)"]) simp
    next
      case False
      with over small have
        "paragraph_loop cs (p # ps) (acc, cc, cl)
           = paragraph_loop cs ps (acc1, [p], int (length p))"
        by (auto simp: acc1_def)
      with sub1 small show ?thesis
        by (intro exI [of _ acc1] exI [of _ "[p]"] exI [of _ "int (length p)"]) simp
    qed
  qed
qed

lemma paragraph_loop_mono:
  "0 \<le> cl \<Longrightarrow> x \<in> set acc \<Longrightarrow> x \<in> set (fst (paragraph_loop cs ps (acc, cc, cl)))"
proof (induction ps arbitrary: acc cc cl)
  case Nil
  then show ?case by simp
next
  case (Cons p ps)
  from paragraph_step [OF Cons.prems(1), of cs p ps acc cc] obtain acc' cc' cl' where
    step: "paragraph_loop cs (p # ps) (acc, cc, cl) = paragraph_loop cs ps (acc', cc', cl')"
    and cl': "0 \<le> cl'" and sub: "set acc \<subseteq> set acc'"
    by blast
  from sub Cons.prems(2) have "x \<in> set acc'" by blast
  from Cons.IH [OF cl' this] step show ?case by simp
qed

lemma paragraph_loop_oversized:
  assumes "0 \<le> cl" and "p \<in> set ps" and "cs < int (length p)"
    and "\<not> has_sentence_boundary p"
  shows "p \<in> set (fst (paragraph_loop cs ps (acc, cc, cl)))"
  using assms(1,2)
proof (induction ps arbitrary: acc cc cl)
  case Nil
  then show ?case by simp
next
  case (Cons p' ps)
  from paragraph_step [OF Cons.prems(1), of cs p' ps acc cc] obtain acc' cc' cl' where
    step: "paragraph_loop cs (p' # ps) (acc, cc, cl) = paragraph_loop cs ps (acc', cc', cl')"
    and cl': "0 \<le> cl'"
    and whole: "cs < int (length p') \<and> \<not> has_sentence_boundary p' \<longrightarrow> p' \<in> set acc'"
    by blast
  show ?case
  proof (cases "p = p'")
    case True
    with whole assms(3,4) have "p \<in> set acc'" by simp
    from paragraph_loop_mono [OF cl' this] step show ?thesis by simp
  next
    case False
    with Cons.prems(2) have "p \<in> set ps" by simp
    from Cons.IH [OF cl' this] step show ?thesis by simp
  qed
qed

lemma split_into_chunks_unfold:
  "split_into_chunks text cs ov =
     (if ensure_text_is_string text = [] then []
      else (case paragraph_loop cs (paragraphs_of (ensure_text_is_string text)) ([], [], 0) of
              (acc, cc, cl) \<Rightarrow>
                (if cc \<noteq> [] then acc @ [join_with [CHR 0x0A, CHR 0x0A] cc] else acc)))"
  by (simp add: split_into_chunks_def paragraphs_of_def Let_def)

lemma paragraphs_of_Nil: "paragraphs_of [] = []"
  by (simp add: paragraphs_of_def strip_def)

lemma oversized_paragraph_whole:
  assumes "p \<in> set (paragraphs_of (ensure_text_is_string text))" and "cs < int (length p)"
    and "\<not> has_sentence_boundary p"
  shows "p \<in> set (split_into_chunks text cs ov)"
proof -
  define t where "t = ensure_text_is_string text"
  from assms(1) have ne: "t \<noteq> []"
    using paragraphs_of_Nil by (auto simp: t_def)
  obtain acc cc cl where pl: "paragraph_loop cs (paragraphs_of t) ([], [], 0) = (acc, cc, cl)"
    by (cases "paragraph_loop cs (paragraphs_of t) ([], [], 0)") auto
  have "p \<in> set (fst (paragraph_loop cs (paragraphs_of t) ([], [], 0)))"
    using assms by (intro paragraph_loop_oversized) (simp_all add: t_def)
  with pl have "p \<in> set acc" by simp
  with ne pl show ?thesis
    by (simp add: split_into_chunks_unfold t_def [symmetric])
qed

lemma single_paragraph_whole:
  assumes "t \<noteq> []" and "\<not> is_space (hd t)" and "\<not> is_space (last t)"
    and "\<not> has_blank_line t" and "\<not> has_sentence_boundary t" and "cs < int (length t)"
  shows "split_into_chunks (ChunkStr t) cs ov = [t]"
proof -
  have ps: "paragraphs_of t = [t]"
    using assms(1-4) by (simp add: paragraphs_of_def no_blank_line_split strip_clean)
  have ss: "split_sentences t = [t]"
    using assms(5) by (rule no_boundary_split_sentences)
  have "paragraph_loop cs [t] ([], [], 0) = ([t], [], 0)"
    using assms(6) by (simp add: ss)
  with assms(1) ps show ?thesis
    by (simp add: split_into_chunks_unfold)
qed

lemma split_into_chunks_two_paragraphs_example:
  "split_into_chunks (ChunkStr (''x.'' @ [CHR 0x0A, CHR 0x0A] @ ''aaa bbb'')) 3 0
     = [''x.'', ''aaa bbb'']"
  by (simp add: split_into_chunks_def strip_def is_space_def split_sentences_def sentence_end_def)

lemma paragraphs_of_two_paragraphs_example:
  "paragraphs_of (''x.'' @ [CHR 0x0A, CHR 0x0A] @ ''aaa bbb'') = [''x.'', ''aaa bbb'']"
  by (simp add: paragraphs_of_def strip_def is_space_def)

lemma no_boundary_example: "\<not> has_sentence_boundary ''aaa bbb''"
  by (simp add: sentence_end_def)

text \<open>
  C3. \<^verbatim>\<open>split_into_chunks\<close> terminates on every input and for every \<^verbatim>\<open>chunk_size\<close>:
  its two loops run once over the finite lists of paragraphs and of sentences, which is
  why the model's functions are total. Every returned chunk is at most as long as the
  input text. There is no hard cut at \<^verbatim>\<open>chunk_size\<close>: every paragraph of the text that
  is longer than \<^verbatim>\<open>chunk_size\<close> and has no sentence boundary is returned whole, as one
  chunk; and a text that is one such paragraph (no blank line, no whitespace at its ends)
  is returned as that single chunk.
\<close>

theorem split_into_chunks_bounded:
  "(\<forall>c \<in> set (split_into_chunks text chunk_size overlap).
       length c \<le> length (ensure_text_is_string text))
   \<and> (\<forall>p \<in> set (paragraphs_of (ensure_text_is_string text)).
         chunk_size < int (length p) \<and> \<not> has_sentence_boundary p
           \<longrightarrow> p \<in> set (split_into_chunks text chunk_size overlap))
   \<and> (t \<noteq> [] \<and> \<not> is_space (hd t) \<and> \<not> is_space (last t) \<and> \<not> has_blank_line t
        \<and> \<not> has_sentence_boundary t \<and> cs < int (length t)
        \<longrightarrow> split_into_chunks (ChunkStr t) cs ov = [t])"
  using split_into_chunks_length oversized_paragraph_whole single_paragraph_whole by blast

theorem split_into_chunks_bounded_witness:
  "split_into_chunks (ChunkStr (''x.'' @ [CHR 0x0A, CHR 0x0A] @ ''aaa bbb'')) 3 0
     = [''x.'', ''aaa bbb'']
   \<and> paragraphs_of (''x.'' @ [CHR 0x0A, CHR 0x0A] @ ''aaa bbb'') = [''x.'', ''aaa bbb'']
   \<and> 3 < int (length ''aaa bbb'') \<and> \<not> has_sentence_boundary ''aaa bbb''
   \<and> ''aaa bbb'' \<in> set (split_into_chunks (ChunkStr (''x.'' @ [CHR 0x0A, CHR 0x0A] @ ''aaa bbb'')) 3 0)
   \<and> length ''aaa bbb'' \<le> length (''x.'' @ [CHR 0x0A, CHR 0x0A] @ ''aaa bbb'')
   \<and> \<not> is_space (hd ''aaa bbb'') \<and> \<not> is_space (last ''aaa bbb'') \<and> \<not> has_blank_line ''aaa bbb''
   \<and> split_into_chunks (ChunkStr ''aaa bbb'') 2 200 = [''aaa bbb'']"
proof -
  note inst = split_into_chunks_bounded
    [of "ChunkStr (''x.'' @ [CHR 0x0A, CHR 0x0A] @ ''aaa bbb'')" 3 0 "''aaa bbb''" 2 200]
  have e: "split_into_chunks (ChunkStr (''x.'' @ [CHR 0x0A, CHR 0x0A] @ ''aaa bbb'')) 3 0
     = [''x.'', ''aaa bbb'']"
    by (rule split_into_chunks_two_paragraphs_example)
  have ps: "paragraphs_of (''x.'' @ [CHR 0x0A, CHR 0x0A] @ ''aaa bbb'') = [''x.'', ''aaa bbb'']"
    by (rule paragraphs_of_two_paragraphs_example)
  have nb: "\<not> has_sentence_boundary ''aaa bbb''" by (rule no_boundary_example)
  have clean: "\<not> is_space (hd ''aaa bbb'')" "\<not> is_space (last ''aaa bbb'')"
    "\<not> has_blank_line ''aaa bbb''"
    by (simp_all add: is_space_def)
  have big: "3 < int (length ''aaa bbb'')" by simp
  have mem: "''aaa bbb'' \<in> set (paragraphs_of (ensure_text_is_string
      (ChunkStr (''x.'' @ [CHR 0x0A, CHR 0x0A] @ ''aaa bbb''))))"
    using ps by simp
  from inst mem big nb have whole:
    "''aaa bbb'' \<in> set (split_into_chunks (ChunkStr (''x.'' @ [CHR 0x0A, CHR 0x0A] @ ''aaa bbb'')) 3 0)"
    by blast
  with inst have bound: "length ''aaa bbb'' \<le> length (''x.'' @ [CHR 0x0A, CHR 0x0A] @ ''aaa bbb'')"
    by simp
  from inst nb clean have single: "split_into_chunks (ChunkStr ''aaa bbb'') 2 200 = [''aaa bbb'']"
    by simp
  from e ps big nb whole bound clean single show ?thesis by blast
qed

theorem no_hard_cut_counterexample:
  "split_into_chunks (ChunkStr ''aaaaa'') 2 200 = [''aaaaa''] \<and> 2 < length ''aaaaa''"
  by (simp add: split_into_chunks_def strip_def is_space_def split_sentences_def)

section \<open>Uploading the same bytes twice\<close>

lemma extract_text_from_pdf_nonempty: "extract_text_from_pdf sv p \<noteq> []"
  by (auto simp: extract_text_from_pdf_def Let_def strip_def split: pdf_outcome.split)

lemma add_document_dict_raises:
  "add_document io did cs (EmbDict a b) md st e
     = (Inl TypeError,
        st\<lparr>documents := (documents st)(did \<mapsto>
             \<lparr>chunks = cs, chunk_start_idx = length (doc_ids st),
              filename = (case md of None \<Rightarrow> did
                          | Some m \<Rightarrow> (case md_filename m of None \<Rightarrow> did | Some fn \<Rightarrow> fn)),
              upload_time = (case md of None \<Rightarrow> None | Some m \<Rightarrow> md_upload_time m),
              full_text = join_chunks cs\<rparr>)\<rparr>,
        e)"
  by (cases md) (simp_all add: add_document_def Let_def)

text \<open>
  A repeated upload is answered from \<^verbatim>\<open>has_document\<close> alone: nothing is extracted,
  embedded or added, and the store and the store file stay as they are.
\<close>

lemma upload_file_known_hash:
  assumes "upload_name f \<noteq> []" and "allowed_file (upload_name f)"
    and "has_document st (md5_hexdigest sv (upload_bytes f))"
  shows "upload_file sv io (Some f) st e
     = ((AlreadyProcessed (md5_hexdigest sv (upload_bytes f)) (secure_filename sv (upload_name f)), 200),
        st, e)"
  using assms by (simp add: upload_file_def get_file_hash_def Let_def)

lemma allowed_file_a_pdf: "allowed_file ''a.pdf''"
  by (simp add: allowed_file_def lower_char_def)

text \<open>
  C5. The first upload of a file that the store does not know, here \<open>a.pdf\<close> with any
  bytes on the empty store and with an encoder that succeeds, is answered with status 500
  and no document id: \<^verbatim>\<open>add_document\<close> raises on the dictionary it gets as embeddings,
  after it has recorded the document under the hash. The second upload of the same bytes is
  then answered as already processed, under that hash, and leaves the store as it is.
\<close>

theorem upload_twice_first_fails:
  "fst (upload_file (sv\<lparr>encode := \<lambda>cs. Inr (emb cs)\<rparr>) io
          (Some \<lparr>upload_name = ''a.pdf'', upload_bytes = b\<rparr>) (fresh_store n) e)
     = (ErrorBody ''Failed to process file'', 500)
   \<and> upload_file (sv\<lparr>encode := \<lambda>cs. Inr (emb cs)\<rparr>) io2
          (Some \<lparr>upload_name = ''a.pdf'', upload_bytes = b\<rparr>)
          (fst (snd (upload_file (sv\<lparr>encode := \<lambda>cs. Inr (emb cs)\<rparr>) io
                       (Some \<lparr>upload_name = ''a.pdf'', upload_bytes = b\<rparr>) (fresh_store n) e)))
          (snd (snd (upload_file (sv\<lparr>encode := \<lambda>cs. Inr (emb cs)\<rparr>) io
                       (Some \<lparr>upload_name = ''a.pdf'', upload_bytes = b\<rparr>) (fresh_store n) e)))
     = ((AlreadyProcessed (md5_hexdigest sv b) (secure_filename sv ''a.pdf''), 200),
        fst (snd (upload_file (sv\<lparr>encode := \<lambda>cs. Inr (emb cs)\<rparr>) io
                       (Some \<lparr>upload_name = ''a.pdf'', upload_bytes = b\<rparr>) (fresh_store n) e)),
        e)"
proof -
  let ?sv = "sv\<lparr>encode := \<lambda>cs. Inr (emb cs)\<rparr>"
  let ?f = "\<lparr>upload_name = ''a.pdf'', upload_bytes = b\<rparr>"
  let ?t = "extract_text_from_pdf ?sv b"
  let ?h = "md5_hexdigest sv b"
  let ?st = "(fresh_store n)\<lparr>documents := (documents (fresh_store n))(?h \<mapsto>
             \<lparr>chunks = ChunkStr ?t, chunk_start_idx = length (doc_ids (fresh_store n)),
              filename = secure_filename sv ''a.pdf'',
              upload_time = Some (time_now sv),
              full_text = join_chunks (ChunkStr ?t)\<rparr>)\<rparr>"
  have fresh: "\<not> has_document (fresh_store n) ?h"
    by (simp add: has_document_def fresh_store_def)
  have first: "upload_file ?sv io (Some ?f) (fresh_store n) e
      = ((ErrorBody ''Failed to process file'', 500), ?st, e)"
    using fresh extract_text_from_pdf_nonempty [of ?sv b]
    by (simp add: upload_file_def get_file_hash_def generate_embeddings_def Let_def
        allowed_file_a_pdf add_document_dict_raises)
  have known: "has_document ?st (md5_hexdigest ?sv (upload_bytes ?f))"
    by (simp add: has_document_def)
  have second: "upload_file ?sv io2 (Some ?f) ?st e
      = ((AlreadyProcessed ?h (secure_filename sv ''a.pdf''), 200), ?st, e)"
    using upload_file_known_hash [of ?f ?st ?sv io2 e] known allowed_file_a_pdf by simp
  from first second show ?thesis by simp
qed

section \<open>The query never raises, and what it returns\<close>

text \<open>Every exception of the body of \<^verbatim>\<open>query\<close> ends in its handler.\<close>

lemma query_never_raises: "\<exists>v. query py rag question ctx k rerank = Inr v"
  by (simp add: query_def split: sum.split)

text \<open>
  When the provider returns a string, a dictionary with a string under \<^verbatim>\<open>text\<close>, or a
  list, the value of \<^verbatim>\<open>generate_try\<close> is a string.
\<close>

lemma format_response_str: "is_str (format_response py (PStr s))"
  by (simp add: format_response_def)

lemma query_empty_index_string_provider:
  assumes "llm_model rag = Some m" and "llm_generate m = None" and "llm_predict m = None"
    and "llm_call m = Some f" and "\<And>p. f p = Inr (PStr (answer p))"
    and "embedding_model rag = Some em" and "is_sentence_transformer rag"
    and "emb_encode em = Some enc" and "enc question = Inr v"
    and "vs_search (rag_vector_store rag) v k = Inr []"
  shows "\<exists>s. query py rag question None k rerank = Inr (PStr s)"
  using assms
  by (simp add: query_def query_try_def retrieve_and_answer_def get_query_embedding_def get_query_embedding_try_def
      call_method_def retrieve_def generate_response_def generate_try_def Let_def
      cleanup_response_def format_response_def)

text \<open>
  C2. On the empty store, with a working embedding model and a provider whose
  \<^verbatim>\<open>generate\<close> returns an object that is neither string, dictionary nor list, \<^verbatim>\<open>query\<close>
  raises nothing, and what it returns to its caller is that object, not a string.
\<close>

theorem query_returns_provider_object:
  "query py (example_rag py) ''unknown topic'' None 3 True = Inr (PObj ''LLMResult'')
   \<and> \<not> is_str (PObj ''LLMResult'')"
  by (simp add: query_def query_try_def retrieve_and_answer_def get_query_embedding_def get_query_embedding_try_def
      call_method_def retrieve_def generate_response_def generate_try_def Let_def
      cleanup_response_def format_response_def example_rag_def vector_store_iface_def
      search_docs_def search_def ntotal_def fresh_store_def IndexFlatL2_def)

end
